theory Spec2Isabelle
  imports Complex_Main
begin

section \<open>The race scene of the game canvas\<close>

text \<open>
  The component \<^verbatim>\<open>GameCanvas\<close> declares the race in variables of its body
  (\<^verbatim>\<open>raceStarted\<close>, \<^verbatim>\<open>raceTime\<close>, \<^verbatim>\<open>checkpoints\<close>, \<^verbatim>\<open>currentCheckpoint\<close>,
  \<^verbatim>\<open>lapCount\<close>, \<^verbatim>\<open>maxLaps\<close>, \<^verbatim>\<open>player\<close>, \<^verbatim>\<open>aiCars\<close>). Every render of the component
  runs the body again and so declares these variables anew. The game is built in an effect
  that depends on \<^verbatim>\<open>gameMode\<close> only, so the scene's callbacks \<^verbatim>\<open>create\<close> and \<^verbatim>\<open>update\<close>
  and the callbacks they register are those of the render that built the game: they keep
  reading and writing that render's variables, and they keep seeing that render's props and
  that render's \<^verbatim>\<open>isPaused\<close>. The variables of one render are the fields of the record
  \<open>session\<close>; what the scene's callbacks see besides them is the record \<open>env\<close>.

  JavaScript numbers are idealised: counters are integers and naturals; times, coordinates
  and angles are reals.

  What the callbacks hand to the outside is kept in three logs: the notifications given
  to \<^verbatim>\<open>toast\<close>, the records given to \<^verbatim>\<open>onGameEnd\<close>, and the calls made on
  \<^verbatim>\<open>socketManager\<close>.
\<close>

datatype gameMode = Single | Multiplayer

text \<open>What the scene's callbacks see besides the variables: the props \<^verbatim>\<open>gameMode\<close> and
  \<^verbatim>\<open>onGameEnd\<close> (optional: the field says whether it was supplied) and the constant
  \<^verbatim>\<open>isPaused\<close> of the render that built the game, which no later \<^verbatim>\<open>setIsPaused\<close> changes
  (it is \<open>False\<close> for a game built when the component is mounted); and the connection
  flag of the socket manager.\<close>

record env =
  gameMode :: gameMode
  onGameEnd :: bool
  socketConnected :: bool
  isPaused :: bool

text \<open>An arcade physics body, and a rectangle that has one until the engine destroys it:
  the player's car or an AI car.\<close>

record arcadeBody =
  vel_x :: real
  vel_y :: real
  body_drag :: real
  body_maxVelocity :: real

record car =
  car_x :: real
  car_y :: real
  car_rotation :: real
  car_body :: "arcadeBody option"

record cursorKeys =
  key_left :: bool
  key_right :: bool
  key_up :: bool
  key_down :: bool

text \<open>The notifications: "Race Started!", "Lap n completed!" with the time in seconds,
  "Race Finished!" with the final time in seconds. Only the data is kept, not the text.\<close>

datatype toast = RaceStartedToast | LapCompleted int real | RaceFinishedToast real

record raceResult =
  res_time :: real
  res_laps :: int
  res_position :: nat

text \<open>Calls on the socket manager, both for the race \<^verbatim>\<open>'current-race'\<close>:
  \<^verbatim>\<open>sendPlayerPosition\<close> with x, y, rotation and speed, and \<^verbatim>\<open>finishRace\<close> with the time.\<close>

datatype socketCall = SendPlayerPosition real real real real | FinishRace real

text \<open>A callback returns or throws; when it throws, what it wrote before stays written.\<close>

datatype error = TypeError

datatype 'a result = returned: Returned (after: 'a) | Threw (thrown: error) (after: 'a)

record session =
  player :: "car option"
  aiCars :: "car list"
  raceStarted :: bool
  raceTime :: real
  checkpoints :: "(real \<times> real) list"
  currentCheckpoint :: nat
  lapCount :: int
  maxLaps :: int
  toasts :: "toast list"
  results :: "raceResult list"
  socketCalls :: "socketCall list"

text \<open>The variables as the component body declares them (lines 66 to 74): no player, no
  cars, no checkpoints, lap target 3.\<close>

definition initialSession :: session where
  "initialSession =
     \<lparr>player = None, aiCars = [], raceStarted = False, raceTime = 0, checkpoints = [],
      currentCheckpoint = 0, lapCount = 0, maxLaps = 3,
      toasts = [], results = [], socketCalls = []\<rparr>"

definition checkpointPositions :: "(real \<times> real) list" where
  "checkpointPositions = [(600, 100), (700, 288), (600, 476), (200, 476), (100, 288)]"

definition newCar :: "real \<Rightarrow> real \<Rightarrow> real \<Rightarrow> real \<Rightarrow> car" where
  "newCar px py dr mv =
     \<lparr>car_x = px, car_y = py, car_rotation = 0,
      car_body = Some \<lparr>vel_x = 0, vel_y = 0, body_drag = dr, body_maxVelocity = mv\<rparr>\<rparr>"

text \<open>\<^verbatim>\<open>create\<close>, on the variables: the five checkpoints are pushed on the list that is
  there, the player is placed, and in single-player mode three AI cars are pushed on the
  list that is there. The walls, the drawing, the colliders and the keyboard are the
  engine's. The overlap callbacks registered here are \<open>checkpointOverlap\<close> below, one for
  each index of the checkpoint list; the timer set here runs \<open>countdownElapsed\<close> three
  seconds later. Nothing is checked. (\<^verbatim>\<open>setGameLoaded(true)\<close> is in \<open>sceneCreate\<close>.)\<close>

definition create :: "env \<Rightarrow> session \<Rightarrow> session" where
  "create e s =
     s\<lparr>checkpoints := checkpoints s @ checkpointPositions,
       player := Some (newCar 120 150 100 300),
       aiCars := aiCars s @
         (if gameMode e = Single
          then map (\<lambda>i. newCar 120 (180 + real i * 30) 80 250) [0..<3] else [])\<rparr>"

definition countdownElapsed :: "session \<Rightarrow> session" where
  "countdownElapsed s = s\<lparr>raceStarted := True, toasts := toasts s @ [RaceStartedToast]\<rparr>"

definition finishRace :: "env \<Rightarrow> session \<Rightarrow> session" where
  "finishRace e s =
     (let finalTime = raceTime s / 1000;
          s1 = s\<lparr>raceStarted := False, toasts := toasts s @ [RaceFinishedToast finalTime]\<rparr>;
          s2 = (if onGameEnd e
                then s1\<lparr>results := results s1 @
                       [\<lparr>res_time = finalTime, res_laps = lapCount s1, res_position = 1\<rparr>]\<rparr>
                else s1)
      in if gameMode e = Multiplayer
         then s2\<lparr>socketCalls := socketCalls s2 @ [FinishRace finalTime]\<rparr>
         else s2)"

text \<open>The overlap callback of the checkpoint with index \<open>index\<close> (lines 172 to 187).
  A callback exists only for an index below the length of the checkpoint list.\<close>

definition checkpointOverlap :: "env \<Rightarrow> nat \<Rightarrow> session \<Rightarrow> session" where
  "checkpointOverlap e index s =
     (if index = currentCheckpoint s
      then let s1 = s\<lparr>currentCheckpoint :=
                        (currentCheckpoint s + 1) mod length (checkpoints s)\<rparr>
           in if currentCheckpoint s1 = 0
              then let s2 = s1\<lparr>lapCount := lapCount s1 + 1\<rparr>;
                       s3 = s2\<lparr>toasts := toasts s2 @
                              [LapCompleted (lapCount s2) (raceTime s2 / 1000)]\<rparr>
                   in if maxLaps s3 \<le> lapCount s3 then finishRace e s3 else s3
              else s1
      else s)"

text \<open>\<^verbatim>\<open>Phaser.Math.Angle.Between(x1, y1, x2, y2)\<close> is \<^verbatim>\<open>Math.atan2(y2 - y1, x2 - x1)\<close>.\<close>

definition atan2 :: "real \<Rightarrow> real \<Rightarrow> real" where
  "atan2 dy dx =
     (if 0 < dx then arctan (dy / dx)
      else if dx < 0 then (if 0 \<le> dy then arctan (dy / dx) + pi else arctan (dy / dx) - pi)
      else if 0 < dy then pi / 2
      else if dy < 0 then - (pi / 2)
      else 0)"

definition angleBetween :: "real \<Rightarrow> real \<Rightarrow> real \<Rightarrow> real \<Rightarrow> real" where
  "angleBetween x1 y1 x2 y2 = atan2 (y2 - y1) (x2 - x1)"

text \<open>Assigning to \<^verbatim>\<open>rotation\<close> goes through the engine's setter, which stores the angle
  brought into the range from \<open>- pi\<close> (included) to \<open>pi\<close> (excluded) by whole turns
  (\<^verbatim>\<open>Phaser.Math.Angle.Wrap\<close>).\<close>

definition wrapAngle :: "real \<Rightarrow> real" where
  "wrapAngle a = a - 2 * pi * of_int \<lfloor>(a + pi) / (2 * pi)\<rfloor>"

definition setRotation :: "real \<Rightarrow> car \<Rightarrow> car" where
  "setRotation a c = c\<lparr>car_rotation := wrapAngle a\<rparr>"

text \<open>\<^verbatim>\<open>body.setVelocity(x, y)\<close> on the body read from the car: it throws when the car has
  no body.\<close>

definition setVelocity :: "real \<Rightarrow> real \<Rightarrow> car \<Rightarrow> car result" where
  "setVelocity vx vy c =
     (case car_body c of
        None \<Rightarrow> Threw TypeError c
      | Some b \<Rightarrow> Returned (c\<lparr>car_body := Some (b\<lparr>vel_x := vx, vel_y := vy\<rparr>)\<rparr>))"

definition speed :: "arcadeBody \<Rightarrow> real" where
  "speed b = sqrt ((vel_x b)\<^sup>2 + (vel_y b)\<^sup>2)"

text \<open>The direction a car faces: the sprite's rotation less a quarter turn, the
  direction along which the player's thrust is projected (lines 226 and 227).\<close>

definition heading :: "car \<Rightarrow> real" where
  "heading c = car_rotation c - pi / 2"

text \<open>The player's controls (lines 219 to 234): four tests in this order, each on the
  car as the tests before it left it.\<close>

definition playerControls :: "cursorKeys \<Rightarrow> car \<Rightarrow> car result" where
  "playerControls k p =
     (let p1 = (if key_left k then setRotation (car_rotation p - 1 / 10) p else p);
          p2 = (if key_right k then setRotation (car_rotation p1 + 1 / 10) p1 else p1)
      in case (if key_up k
               then setVelocity (cos (car_rotation p2 - pi / 2) * 300)
                                (sin (car_rotation p2 - pi / 2) * 300) p2
               else Returned p2) of
           Threw err p3 \<Rightarrow> Threw err p3
         | Returned p3 \<Rightarrow>
             if key_down k
             then setVelocity (cos (car_rotation p3 - pi / 2) * (- 150))
                              (sin (car_rotation p3 - pi / 2) * (- 150)) p3
             else Returned p3)"

text \<open>\<^verbatim>\<open>checkpoints[currentCheckpoint]\<close>: undefined when the index is not one of the list.\<close>

definition checkpointAt :: "(real \<times> real) list \<Rightarrow> nat \<Rightarrow> (real \<times> real) option" where
  "checkpointAt cps i = (if i < length cps then Some (cps ! i) else None)"

text \<open>The body of the loop over the AI cars (lines 239 to 249) for the car with index
  \<open>index\<close>: reading the position of a target that is undefined throws, before anything is
  written; setting the velocity of a car without a body throws, after the rotation is
  written.\<close>

definition aiDrive :: "(real \<times> real) option \<Rightarrow> nat \<Rightarrow> car \<Rightarrow> car result" where
  "aiDrive target index c =
     (case target of
        None \<Rightarrow> Threw TypeError c
      | Some t \<Rightarrow>
          let angle = angleBetween (car_x c) (car_y c) (fst t) (snd t);
              c1 = setRotation (angle + pi / 2) c;
              sp = 200 + real index * 20
          in setVelocity (cos angle * sp) (sin angle * sp) c1)"

text \<open>\<^verbatim>\<open>aiCars.forEach\<close>: the cars in order, each with its index; the loop ends where a
  call throws.\<close>

fun forEachCar :: "(nat \<Rightarrow> car \<Rightarrow> car result) \<Rightarrow> nat \<Rightarrow> car list \<Rightarrow> car list result" where
  "forEachCar f i [] = Returned []"
| "forEachCar f i (c # cs) =
     (case f i c of
        Threw err c' \<Rightarrow> Threw err (c' # cs)
      | Returned c' \<Rightarrow>
          (case forEachCar f (Suc i) cs of
             Threw err cs' \<Rightarrow> Threw err (c' # cs')
           | Returned cs' \<Rightarrow> Returned (c' # cs')))"

text \<open>\<^verbatim>\<open>update(time, delta)\<close>. Reading the body of a player that is undefined throws.\<close>

definition update :: "env \<Rightarrow> cursorKeys \<Rightarrow> real \<Rightarrow> real \<Rightarrow> session \<Rightarrow> session result" where
  "update e k time delta s =
     (if \<not> raceStarted s \<or> isPaused e then Returned s
      else
        let s1 = s\<lparr>raceTime := raceTime s + delta\<rparr>
        in case player s1 of
             None \<Rightarrow> Threw TypeError s1
           | Some p \<Rightarrow>
               (case playerControls k p of
                  Threw err p' \<Rightarrow> Threw err (s1\<lparr>player := Some p'\<rparr>)
                | Returned p' \<Rightarrow>
                    let s2 = s1\<lparr>player := Some p'\<rparr>
                    in case (if gameMode e = Single
                             then forEachCar
                                    (aiDrive (checkpointAt (checkpoints s2) (currentCheckpoint s2)))
                                    0 (aiCars s2)
                             else Returned (aiCars s2)) of
                         Threw err cars \<Rightarrow> Threw err (s2\<lparr>aiCars := cars\<rparr>)
                       | Returned cars \<Rightarrow>
                           let s3 = s2\<lparr>aiCars := cars\<rparr>
                           in if gameMode e = Multiplayer \<and> socketConnected e
                              then (case car_body p' of
                                      None \<Rightarrow> Threw TypeError s3
                                    | Some b \<Rightarrow>
                                        Returned (s3\<lparr>socketCalls := socketCalls s3 @
                                          [SendPlayerPosition (car_x p') (car_y p')
                                             (car_rotation p') (speed b)]\<rparr>))
                              else Returned s3))"

text \<open>\<^verbatim>\<open>handleRestart\<close>, on the variables: the four assignments, made to the variables of
  the render the handler was made in. What else the handler does is in
  \<open>restartClicked\<close>.\<close>

definition handleRestart :: "session \<Rightarrow> session" where
  "handleRestart s =
     s\<lparr>raceStarted := False, raceTime := 0, currentCheckpoint := 0, lapCount := 0\<rparr>"

text \<open>Entering, each time, the checkpoint that is expected: \<open>m\<close> in-order entries.\<close>

definition enterExpected :: "env \<Rightarrow> session \<Rightarrow> session" where
  "enterExpected e s = checkpointOverlap e (currentCheckpoint s) s"

definition inOrderEntries :: "env \<Rightarrow> nat \<Rightarrow> session \<Rightarrow> session" where
  "inOrderEntries e m s = (enterExpected e ^^ m) s"

text \<open>What the engine delivers to the running scene: an update tick, or the overlap
  callback of the checkpoint with some index. A run delivers a list of these in order and
  ends where a callback throws.\<close>

datatype event = Tick cursorKeys real real | Overlap nat

definition fire :: "env \<Rightarrow> event \<Rightarrow> session \<Rightarrow> session result" where
  "fire e ev s =
     (case ev of
        Tick k time delta \<Rightarrow> update e k time delta s
      | Overlap index \<Rightarrow> Returned (checkpointOverlap e index s))"

fun run :: "env \<Rightarrow> event list \<Rightarrow> session \<Rightarrow> session result" where
  "run e [] s = Returned s"
| "run e (ev # evs) s =
     (case fire e ev s of Threw err s' \<Rightarrow> Threw err s' | Returned s' \<Rightarrow> run e evs s')"

text \<open>The same list delivered by an engine that goes on after a callback has thrown:
  each callback finds the variables as the one before left them.\<close>

fun deliver :: "env \<Rightarrow> event list \<Rightarrow> session \<Rightarrow> session" where
  "deliver e [] s = s"
| "deliver e (ev # evs) s = deliver e evs (after (fire e ev s))"

text \<open>One occupancy of the checkpoint with index \<open>i\<close>: while the car stays in the region,
  the only overlap callback delivered is that checkpoint's, once for every physics step,
  with update ticks in between.\<close>

definition occupies :: "nat \<Rightarrow> event \<Rightarrow> bool" where
  "occupies i ev = (case ev of Tick k time delta \<Rightarrow> True | Overlap index \<Rightarrow> index = i)"

subsection \<open>The engine and the sessions the scene can be in\<close>

text \<open>When the scene shuts down for a restart the engine destroys its objects: each car
  loses its body. The variables keep pointing at the destroyed objects. Then the engine
  calls \<open>create\<close> again, on the same variables.\<close>

definition destroyCar :: "car \<Rightarrow> car" where
  "destroyCar c = c\<lparr>car_body := None\<rparr>"

definition shutdown :: "session \<Rightarrow> session" where
  "shutdown s = s\<lparr>player := map_option destroyCar (player s), aiCars := map destroyCar (aiCars s)\<rparr>"

definition restartScene :: "env \<Rightarrow> session \<Rightarrow> session" where
  "restartScene e s = create e (shutdown s)"

text \<open>The engine's physics step moves the cars. Nothing accelerates them (no gravity, no
  acceleration; drag, the world bounds and the static walls only take speed away), so all
  that is kept of the step is that a car keeps its rotation and its body and does not get
  faster.\<close>

definition carried :: "car \<Rightarrow> car \<Rightarrow> bool" where
  "carried c c' =
     (car_rotation c' = car_rotation c \<and>
      (case car_body c of
         None \<Rightarrow> car_body c' = None
       | Some b \<Rightarrow>
           (case car_body c' of
              None \<Rightarrow> False
            | Some b' \<Rightarrow> speed b' \<le> speed b \<and> body_drag b' = body_drag b \<and>
                        body_maxVelocity b' = body_maxVelocity b)))"

definition physicsStep :: "session \<Rightarrow> session \<Rightarrow> bool" where
  "physicsStep s s' =
     (\<exists>p' cars'. s' = s\<lparr>player := p', aiCars := cars'\<rparr> \<and>
        rel_option carried (player s) p' \<and> list_all2 carried (aiCars s) cars')"

text \<open>The sessions the scene's variables can hold once the scene is created: the first
  \<open>create\<close> on the declared variables, and from there the countdown, update ticks,
  overlap callbacks of the checkpoints there are, physics steps, scene restarts, and the
  assignments of \<open>handleRestart\<close> (when the handler is the one of the render that built the
  game).\<close>

inductive reachable :: "env \<Rightarrow> session \<Rightarrow> bool" for e :: env where
  created: "reachable e (create e initialSession)"
| countdown: "reachable e s \<Longrightarrow> reachable e (countdownElapsed s)"
| tick: "reachable e s \<Longrightarrow> reachable e (after (update e k time delta s))"
| overlap: "reachable e s \<Longrightarrow> index < length (checkpoints s) \<Longrightarrow>
            reachable e (checkpointOverlap e index s)"
| physics: "reachable e s \<Longrightarrow> physicsStep s s' \<Longrightarrow> reachable e s'"
| restarted: "reachable e s \<Longrightarrow> reachable e (restartScene e s)"
| reset: "reachable e s \<Longrightarrow> reachable e (handleRestart s)"

subsection \<open>The component around the scene\<close>

text \<open>
  The component: the variables of every render so far, oldest first (a render appends the
  variables it declares, and the handlers of the buttons are those of the last render);
  the render that built the game; the two pieces of component state; and, of the engine,
  whether the scene is paused and whether a restart of the scene is queued. A render
  follows every change of the component state.
\<close>

record component =
  vars :: "session list"
  built :: nat
  isPausedState :: bool
  gameLoadedState :: bool
  scenePaused :: bool
  restartQueued :: bool

definition mounted :: component where
  "mounted =
     \<lparr>vars = [initialSession], built = 0, isPausedState = False, gameLoadedState = False,
      scenePaused = False, restartQueued = False\<rparr>"

definition sceneVars :: "component \<Rightarrow> session" where
  "sceneVars c = vars c ! built c"

definition onScene :: "(session \<Rightarrow> session) \<Rightarrow> component \<Rightarrow> component" where
  "onScene f c = c\<lparr>vars := (vars c)[built c := f (sceneVars c)]\<rparr>"

definition rerender :: "component \<Rightarrow> component" where
  "rerender c = c\<lparr>vars := vars c @ [initialSession]\<rparr>"

text \<open>The engine calls \<^verbatim>\<open>create\<close>: \<open>create\<close> on the scene's variables, then
  \<^verbatim>\<open>setGameLoaded(true)\<close>.\<close>

definition sceneCreate :: "env \<Rightarrow> component \<Rightarrow> component" where
  "sceneCreate e c =
     (let c1 = onScene (create e) c
      in if gameLoadedState c1 then c1 else rerender (c1\<lparr>gameLoadedState := True\<rparr>))"


text \<open>A click on the restart button: \<^verbatim>\<open>scene.restart()\<close> queues the restart,
  \<^verbatim>\<open>setIsPaused(false)\<close>, and the four assignments go to the variables of the last
  render. The engine then restarts the scene, which ends up running.\<close>

definition restartClicked :: "component \<Rightarrow> component" where
  "restartClicked c =
     (let c1 = c\<lparr>restartQueued := True,
                 vars := (vars c)[length (vars c) - 1 := handleRestart (last (vars c))]\<rparr>
      in if isPausedState c1 then rerender (c1\<lparr>isPausedState := False\<rparr>) else c1)"

definition processRestart :: "env \<Rightarrow> component \<Rightarrow> component" where
  "processRestart e c =
     (if restartQueued c
      then sceneCreate e (onScene shutdown (c\<lparr>restartQueued := False, scenePaused := False\<rparr>))
      else c)"

text \<open>One frame of the engine: a paused scene is skipped, it gets no update call (and no
  physics callback); a running scene gets its \<open>update\<close>.\<close>

definition frame :: "env \<Rightarrow> cursorKeys \<Rightarrow> real \<Rightarrow> real \<Rightarrow> component \<Rightarrow> component result" where
  "frame e k time delta c =
     (if scenePaused c then Returned c
      else case update e k time delta (sceneVars c) of
             Threw err s' \<Rightarrow> Threw err (onScene (\<lambda>s. s') c)
           | Returned s' \<Rightarrow> Returned (onScene (\<lambda>s. s') c))"


subsection \<open>Examples\<close>

text \<open>The single-player game built at mount with an \<^verbatim>\<open>onGameEnd\<close> callback; the session
  once the scene is created and the countdown has run; the keys.\<close>

definition soloEnv :: env where
  "soloEnv = \<lparr>gameMode = Single, onGameEnd = True, socketConnected = False, isPaused = False\<rparr>"

definition startedRace :: "env \<Rightarrow> session" where
  "startedRace e = countdownElapsed (create e initialSession)"

definition noKeys :: cursorKeys where
  "noKeys = \<lparr>key_left = False, key_right = False, key_up = False, key_down = False\<rparr>"

definition leftKey :: cursorKeys where
  "leftKey = noKeys\<lparr>key_left := True\<rparr>"

definition upKey :: cursorKeys where
  "upKey = noKeys\<lparr>key_up := True\<rparr>"

definition upDownKeys :: cursorKeys where
  "upDownKeys = noKeys\<lparr>key_up := True, key_down := True\<rparr>"

text \<open>What is read off a session in the examples: the player's rotation and velocity,
  and for each AI car its speed, if it has a body.\<close>

definition playerRotation :: "session \<Rightarrow> real option" where
  "playerRotation s = map_option car_rotation (player s)"

definition bodyVelocity :: "car \<Rightarrow> (real \<times> real) option" where
  "bodyVelocity c = map_option (\<lambda>b. (vel_x b, vel_y b)) (car_body c)"

definition playerVelocity :: "session \<Rightarrow> (real \<times> real) option" where
  "playerVelocity s = Option.bind (player s) bodyVelocity"

definition aiVelocities :: "session \<Rightarrow> (real \<times> real) option list" where
  "aiVelocities s = map bodyVelocity (aiCars s)"

text \<open>The component once the scene is created and the countdown has run, and the same
  after a click on the restart button and the engine's restart of the scene.\<close>

definition startedComponent :: "env \<Rightarrow> component" where
  "startedComponent e = onScene countdownElapsed (sceneCreate e mounted)"

definition restartedComponent :: "env \<Rightarrow> component" where
  "restartedComponent e = processRestart e (restartClicked (startedComponent e))"

section \<open>The leaderboard's win rate\<close>

text \<open>
  A JavaScript division does not fail on a zero divisor: it gives an infinity or NaN.
  The result type of the arithmetic keeps these apart from the finite numbers (which are
  idealised as reals).
\<close>

datatype jsnum = Fin real | PosInf | NegInf | NaN

definition jsDivide :: "real \<Rightarrow> real \<Rightarrow> jsnum" where
  "jsDivide a b =
     (if b \<noteq> 0 then Fin (a / b)
      else if a = 0 then NaN else if 0 < a then PosInf else NegInf)"

fun jsTimes :: "jsnum \<Rightarrow> real \<Rightarrow> jsnum" where
  "jsTimes (Fin a) c = Fin (a * c)"
| "jsTimes NaN c = NaN"
| "jsTimes PosInf c = (if c = 0 then NaN else if 0 < c then PosInf else NegInf)"
| "jsTimes NegInf c = (if c = 0 then NaN else if 0 < c then NegInf else PosInf)"

fun jsMinus :: "jsnum \<Rightarrow> jsnum \<Rightarrow> jsnum" where
  "jsMinus (Fin a) (Fin b) = Fin (a - b)"
| "jsMinus NaN b = NaN"
| "jsMinus a NaN = NaN"
| "jsMinus PosInf PosInf = NaN"
| "jsMinus NegInf NegInf = NaN"
| "jsMinus PosInf b = PosInf"
| "jsMinus NegInf b = NegInf"
| "jsMinus (Fin a) PosInf = NegInf"
| "jsMinus (Fin a) NegInf = PosInf"

text \<open>The numeric columns of a row of the players table.\<close>

record playerRow =
  total_races :: real
  wins :: real
  best_time :: real

text \<open>The rate the \<^verbatim>\<open>'winrate'\<close> comparator computes for each of its two rows
  (\<^verbatim>\<open>winRateA\<close>, \<^verbatim>\<open>winRateB\<close>), and the comparator.\<close>

definition winRate :: "playerRow \<Rightarrow> jsnum" where
  "winRate p =
     (if 0 < total_races p then jsTimes (jsDivide (wins p) (total_races p)) 100 else Fin 0)"

definition winrateCompare :: "playerRow \<Rightarrow> playerRow \<Rightarrow> jsnum" where
  "winrateCompare a b = jsMinus (winRate b) (winRate a)"

text \<open>\<^verbatim>\<open>getWinRate\<close>. The built-in \<^verbatim>\<open>Number.prototype.toFixed\<close> is a parameter: it takes
  the number and the count of digits.\<close>

definition getWinRate :: "(jsnum \<Rightarrow> nat \<Rightarrow> string) \<Rightarrow> real \<Rightarrow> real \<Rightarrow> string" where
  "getWinRate toFixed w totalRaces =
     (if totalRaces = 0 then ''0%''
      else toFixed (jsTimes (jsDivide w totalRaces) 100) 1 @ ''%'')"

section \<open>Laps and the finish\<close>

text \<open>What \<open>finishRace\<close> and one in-order entry do to each field.\<close>

lemma finishRace_frame:
  "currentCheckpoint (finishRace e s) = currentCheckpoint s"
  "lapCount (finishRace e s) = lapCount s"
  "maxLaps (finishRace e s) = maxLaps s"
  "checkpoints (finishRace e s) = checkpoints s"
  "raceTime (finishRace e s) = raceTime s"
  "raceStarted (finishRace e s) = False"
  "results (finishRace e s) = results s @
     (if onGameEnd e then [\<lparr>res_time = raceTime s / 1000, res_laps = lapCount s, res_position = 1\<rparr>] else [])"
  by (simp_all add: finishRace_def Let_def)

lemma enterExpected_fields:
  "currentCheckpoint (enterExpected e s) = (currentCheckpoint s + 1) mod length (checkpoints s)"
  "lapCount (enterExpected e s) =
     lapCount s + (if (currentCheckpoint s + 1) mod length (checkpoints s) = 0 then 1 else 0)"
  "maxLaps (enterExpected e s) = maxLaps s"
  "checkpoints (enterExpected e s) = checkpoints s"
  "raceTime (enterExpected e s) = raceTime s"
  "raceStarted (enterExpected e s) =
     (raceStarted s \<and> \<not> ((currentCheckpoint s + 1) mod length (checkpoints s) = 0 \<and>
        maxLaps s \<le> lapCount s + 1))"
  "results (enterExpected e s) = results s @
     (if (currentCheckpoint s + 1) mod length (checkpoints s) = 0 \<and> maxLaps s \<le> lapCount s + 1
         \<and> onGameEnd e
      then [\<lparr>res_time = raceTime s / 1000, res_laps = lapCount s + 1, res_position = 1\<rparr>] else [])"
  by (simp_all add: enterExpected_def checkpointOverlap_def Let_def finishRace_frame)


lemma inOrderEntries_Suc:
  "inOrderEntries e (Suc m) s = enterExpected e (inOrderEntries e m s)"
  by (simp add: inOrderEntries_def)

lemma inOrderEntries_0: "inOrderEntries e 0 s = s"
  by (simp add: inOrderEntries_def)

lemma inOrderEntries_frame:
  "checkpoints (inOrderEntries e m s) = checkpoints s"
  "maxLaps (inOrderEntries e m s) = maxLaps s"
  "raceTime (inOrderEntries e m s) = raceTime s"
  by (induction m) (simp_all add: inOrderEntries_0 inOrderEntries_Suc enterExpected_fields)

lemma inOrderEntries_index:
  assumes "currentCheckpoint s < length (checkpoints s)"
  shows "currentCheckpoint (inOrderEntries e m s) =
           (currentCheckpoint s + m) mod length (checkpoints s)"
proof (induction m)
  case 0
  from assms show ?case by (simp add: inOrderEntries_0)
next
  case (Suc m)
  then show ?case
    by (simp add: inOrderEntries_Suc enterExpected_fields inOrderEntries_frame mod_Suc_eq)
qed

lemma inOrderEntries_laps:
  assumes "currentCheckpoint s < length (checkpoints s)"
  shows "lapCount (inOrderEntries e m s) =
           lapCount s + int ((currentCheckpoint s + m) div length (checkpoints s))"
proof (induction m)
  case 0
  from assms show ?case by (simp add: inOrderEntries_0)
next
  case (Suc m)
  have "lapCount (inOrderEntries e (Suc m) s) =
          lapCount (inOrderEntries e m s) +
          (if Suc (currentCheckpoint s + m) mod length (checkpoints s) = 0 then 1 else 0)"
    by (simp add: inOrderEntries_Suc enterExpected_fields inOrderEntries_frame
        inOrderEntries_index [OF assms] mod_Suc_eq)
  with Suc show ?case
    by (simp add: div_Suc)
qed

text \<open>
  Claim C2. From a session whose expected index is below the checkpoint count \<open>N\<close>,
  every entry of the expected checkpoint moves the expected index to the next one modulo
  \<open>N\<close>, so that after \<open>m\<close> in-order entries it is the start index plus \<open>m\<close>, modulo
  \<open>N\<close>: from a fresh session 0, 1, ..., N - 1, 0, 1, ... The expected index stays below
  \<open>N\<close>, also after the assignments of \<open>handleRestart\<close>. The lap count has grown by the
  number of wraps, one for each full cycle, and an entry adds a lap exactly when it is made
  at index \<open>N - 1\<close>, where the index wraps to 0.
\<close>

theorem in_order_entries_cycle:
  assumes "currentCheckpoint s < length (checkpoints s)"
  shows "currentCheckpoint (inOrderEntries e m s) =
           (currentCheckpoint s + m) mod length (checkpoints s)
       \<and> currentCheckpoint (inOrderEntries e m s) < length (checkpoints (inOrderEntries e m s))
       \<and> lapCount (inOrderEntries e m s) =
           lapCount s + int ((currentCheckpoint s + m) div length (checkpoints s))
       \<and> lapCount (inOrderEntries e (Suc m) s) =
           lapCount (inOrderEntries e m s) +
           (if currentCheckpoint (inOrderEntries e m s) = length (checkpoints s) - 1
            then 1 else 0)
       \<and> currentCheckpoint (inOrderEntries e (Suc m) s) =
           (currentCheckpoint (inOrderEntries e m s) + 1) mod length (checkpoints s)
       \<and> currentCheckpoint (handleRestart (inOrderEntries e m s)) <
           length (checkpoints (handleRestart (inOrderEntries e m s)))"
proof -
  let ?N = "length (checkpoints s)"
  from assms have N: "0 < ?N" by (cases "checkpoints s") simp_all
  have idx: "currentCheckpoint (inOrderEntries e m s) = (currentCheckpoint s + m) mod ?N"
    by (rule inOrderEntries_index [OF assms])
  have bound: "currentCheckpoint (inOrderEntries e m s) < ?N"
    using N by (simp add: idx)
  have step: "lapCount (inOrderEntries e (Suc m) s) =
           lapCount (inOrderEntries e m s) +
           (if currentCheckpoint (inOrderEntries e m s) = ?N - 1 then 1 else 0)"
  proof -
    have "(Suc (currentCheckpoint (inOrderEntries e m s)) mod ?N = 0) =
          (currentCheckpoint (inOrderEntries e m s) = ?N - 1)"
      using bound N by (auto simp: mod_Suc)
    then show ?thesis
      by (simp add: inOrderEntries_Suc enterExpected_fields inOrderEntries_frame)
  qed
  show ?thesis
    using idx bound step N inOrderEntries_laps [OF assms, of e m]
    by (simp add: inOrderEntries_frame handleRestart_def inOrderEntries_Suc enterExpected_fields)
qed


theorem in_order_entries_cycle_witness:
  "currentCheckpoint (startedRace soloEnv) < length (checkpoints (startedRace soloEnv))
   \<and> currentCheckpoint (inOrderEntries soloEnv 7 (startedRace soloEnv)) = 2
   \<and> lapCount (inOrderEntries soloEnv 7 (startedRace soloEnv)) = 1
   \<and> lapCount (inOrderEntries soloEnv 10 (startedRace soloEnv)) =
       lapCount (inOrderEntries soloEnv 9 (startedRace soloEnv)) + 1"
proof -
  have h: "currentCheckpoint (startedRace soloEnv) < length (checkpoints (startedRace soloEnv))"
    by (simp add: startedRace_def countdownElapsed_def create_def initialSession_def
        checkpointPositions_def)
  have c: "currentCheckpoint (startedRace soloEnv) = 0"
    and l: "lapCount (startedRace soloEnv) = 0"
    and n: "length (checkpoints (startedRace soloEnv)) = 5"
    by (simp_all add: startedRace_def countdownElapsed_def create_def initialSession_def
        checkpointPositions_def)
  show ?thesis
    using h in_order_entries_cycle [OF h, of soloEnv 7]
      in_order_entries_cycle [OF h, of soloEnv 9]
    by (simp add: c l n)
qed

lemma inOrderEntries_add:
  "inOrderEntries e (a + b) s = inOrderEntries e a (inOrderEntries e b s)"
  by (simp add: inOrderEntries_def funpow_add)

lemma inOrderEntries_stays_stopped:
  "\<not> raceStarted s \<Longrightarrow> \<not> raceStarted (inOrderEntries e m s)"
  by (induction m) (simp_all add: inOrderEntries_0 inOrderEntries_Suc enterExpected_fields)

lemma fresh_before_target:
  assumes "currentCheckpoint s = 0" and "lapCount s = 0" and "maxLaps s = int L"
    and "0 < length (checkpoints s)" and "raceStarted s" and "results s = []"
  shows "m < L * length (checkpoints s) \<Longrightarrow>
           raceStarted (inOrderEntries e m s) \<and> results (inOrderEntries e m s) = []"
proof (induction m)
  case 0
  from assms show ?case by (simp add: inOrderEntries_0)
next
  case (Suc m)
  let ?N = "length (checkpoints s)"
  let ?t = "inOrderEntries e m s"
  have start: "currentCheckpoint s < ?N" using assms by simp
  from Suc have IH: "raceStarted ?t" "results ?t = []" by simp_all
  have cc: "currentCheckpoint ?t = m mod ?N"
    using inOrderEntries_index [OF start, of e m] assms by simp
  have lc: "lapCount ?t = int (m div ?N)"
    using inOrderEntries_laps [OF start, of e m] assms by simp
  have small: "Suc m div ?N < L"
    using Suc.prems by (simp add: less_mult_imp_div_less)
  have nofinish: "\<not> (Suc (m mod ?N) mod ?N = 0 \<and> int L \<le> int (m div ?N) + 1)"
  proof
    assume h: "Suc (m mod ?N) mod ?N = 0 \<and> int L \<le> int (m div ?N) + 1"
    then have "Suc m mod ?N = 0" by (simp add: mod_Suc_eq)
    then have "Suc m div ?N = Suc (m div ?N)" by (simp add: div_Suc)
    with small h show False by simp
  qed
  show ?case
    using IH nofinish
    by (auto simp: inOrderEntries_Suc enterExpected_fields inOrderEntries_frame cc lc assms(3))
qed


lemma fresh_at_target:
  assumes "currentCheckpoint s = 0" and "lapCount s = 0" and "maxLaps s = int L"
    and "0 < length (checkpoints s)" and "raceStarted s" and "results s = []" and "0 < L"
  shows "\<not> raceStarted (inOrderEntries e (L * length (checkpoints s)) s) \<and>
         results (inOrderEntries e (L * length (checkpoints s)) s) =
           (if onGameEnd e
            then [\<lparr>res_time = raceTime s / 1000, res_laps = int L, res_position = 1\<rparr>]
            else [])"
proof -
  let ?N = "length (checkpoints s)"
  obtain m where m: "L * ?N = Suc m"
    using assms(4,7) by (cases "L * ?N") simp_all
  let ?t = "inOrderEntries e m s"
  have start: "currentCheckpoint s < ?N" using assms by simp
  have before: "raceStarted ?t \<and> results ?t = []"
    using fresh_before_target [OF assms(1-6), of m e] m by simp
  have cc: "currentCheckpoint ?t = m mod ?N"
    using inOrderEntries_index [OF start, of e m] assms by simp
  have lc: "lapCount ?t = int (m div ?N)"
    using inOrderEntries_laps [OF start, of e m] assms by simp
  have wrap: "Suc m mod ?N = 0"
    using m [symmetric] by simp
  have "Suc m div ?N = L"
    using m [symmetric] assms(4) by simp
  with wrap have laps: "Suc (m div ?N) = L"
    by (simp add: div_Suc)
  have laps': "int (m div ?N) + 1 = int L"
    using laps by linarith
  from wrap have wrap': "Suc (m mod ?N) mod ?N = 0"
    by (simp add: mod_Suc_eq)
  show ?thesis
    unfolding m
    using before wrap' laps'
    by (simp add: inOrderEntries_Suc enterExpected_fields inOrderEntries_frame cc lc assms(3))
qed

text \<open>
  Claim C1. Take a fresh racing session: expected index 0, no lap, started, no result
  given out yet, lap target \<open>L\<close> of at least 1 and \<open>N\<close> checkpoints, at least 1. After
  \<open>m\<close> in-order entries the race is still started exactly when \<open>m\<close> is below \<open>L * N\<close>:
  the started flag falls once, on the entry number \<open>L * N\<close>, and not before. Before that
  entry no result record has been given out, and on it the one record given to
  \<^verbatim>\<open>onGameEnd\<close> (when the callback is supplied) has the lap count \<open>L\<close>.
\<close>

theorem finished_once_after_all_laps:
  assumes "currentCheckpoint s = 0" and "lapCount s = 0" and "raceStarted s"
    and "results s = []" and "maxLaps s = int L" and "1 \<le> L"
    and "length (checkpoints s) = N" and "1 \<le> N"
  shows "(raceStarted (inOrderEntries e m s) \<longleftrightarrow> m < L * N)
       \<and> (m < L * N \<longrightarrow> results (inOrderEntries e m s) = [])
       \<and> results (inOrderEntries e (L * N) s) =
           (if onGameEnd e
            then [\<lparr>res_time = raceTime s / 1000, res_laps = int L, res_position = 1\<rparr>]
            else [])"
proof -
  have N: "0 < length (checkpoints s)" and L: "0 < L"
    using assms by simp_all
  note fresh = assms(1,2,5) N assms(3,4)
  have before: "m < L * N \<Longrightarrow>
      raceStarted (inOrderEntries e m s) \<and> results (inOrderEntries e m s) = []"
    using fresh_before_target [OF fresh, of m e] assms(7) by simp
  have at: "\<not> raceStarted (inOrderEntries e (L * N) s) \<and>
         results (inOrderEntries e (L * N) s) =
           (if onGameEnd e
            then [\<lparr>res_time = raceTime s / 1000, res_laps = int L, res_position = 1\<rparr>]
            else [])"
    using fresh_at_target [OF fresh L, of e] assms(7) by simp
  have after: "\<not> raceStarted (inOrderEntries e m s)" if "\<not> m < L * N"
  proof -
    from that obtain d where d: "m = d + L * N"
      by (metis add.commute le_Suc_ex not_less)
    show ?thesis
      unfolding d inOrderEntries_add
      using at by (simp add: inOrderEntries_stays_stopped)
  qed
  show ?thesis
    using before at after by blast
qed

theorem finished_once_after_all_laps_witness:
  "currentCheckpoint (startedRace soloEnv) = 0
   \<and> raceStarted (startedRace soloEnv)
   \<and> maxLaps (startedRace soloEnv) = 3
   \<and> length (checkpoints (startedRace soloEnv)) = 5
   \<and> raceStarted (inOrderEntries soloEnv 14 (startedRace soloEnv))
   \<and> \<not> raceStarted (inOrderEntries soloEnv 15 (startedRace soloEnv))
   \<and> results (inOrderEntries soloEnv 14 (startedRace soloEnv)) = []
   \<and> results (inOrderEntries soloEnv 15 (startedRace soloEnv)) =
       [\<lparr>res_time = 0, res_laps = 3, res_position = 1\<rparr>]"
proof -
  have h: "currentCheckpoint (startedRace soloEnv) = 0" "lapCount (startedRace soloEnv) = 0"
    "raceStarted (startedRace soloEnv)" "results (startedRace soloEnv) = []"
    "maxLaps (startedRace soloEnv) = int 3" "1 \<le> (3::nat)"
    "length (checkpoints (startedRace soloEnv)) = 5" "1 \<le> (5::nat)"
    by (simp_all add: startedRace_def countdownElapsed_def create_def initialSession_def
        checkpointPositions_def)
  have t: "raceTime (startedRace soloEnv) = 0" and g: "onGameEnd soloEnv"
    by (simp_all add: startedRace_def countdownElapsed_def create_def initialSession_def
        soloEnv_def)
  show ?thesis
    using h finished_once_after_all_laps [OF h, of soloEnv 14]
      finished_once_after_all_laps [OF h, of soloEnv 15]
    by (simp add: t g)
qed

section \<open>Out-of-order entries\<close>

text \<open>
  Claim C4. An entry of a checkpoint whose index is not the expected one changes
  nothing: the expected index, the lap count, the started flag and every other field of
  the session stay as they were.
\<close>

theorem out_of_order_entry_noop:
  "index \<noteq> currentCheckpoint s \<Longrightarrow> checkpointOverlap e index s = s"
  by (simp add: checkpointOverlap_def)

theorem out_of_order_entry_noop_witness:
  "2 \<noteq> currentCheckpoint (startedRace soloEnv)
   \<and> checkpointOverlap soloEnv 2 (startedRace soloEnv) = startedRace soloEnv"
proof -
  have h: "2 \<noteq> currentCheckpoint (startedRace soloEnv)"
    by (simp add: startedRace_def countdownElapsed_def create_def initialSession_def)
  show ?thesis
    using h out_of_order_entry_noop [OF h, of soloEnv] by simp
qed

section \<open>Angles, speed and the player's controls\<close>

text \<open>The stored rotation lies in the range of the setter and differs from the assigned
  angle by whole turns, so it gives the same direction.\<close>

lemma wrapAngle_range: "- pi \<le> wrapAngle a \<and> wrapAngle a < pi"
proof -
  let ?q = "(a + pi) / (2 * pi)"
  have q: "2 * pi * ?q = a + pi"
    by simp
  have "2 * pi * of_int \<lfloor>?q\<rfloor> \<le> 2 * pi * ?q"
    by (rule mult_left_mono) simp_all
  then have lo: "2 * pi * of_int \<lfloor>?q\<rfloor> \<le> a + pi"
    by (simp only: q)
  have "?q < of_int \<lfloor>?q\<rfloor> + 1"
    by linarith
  then have "2 * pi * ?q < 2 * pi * (of_int \<lfloor>?q\<rfloor> + 1)"
    by (rule mult_strict_left_mono) simp
  then have hi: "a + pi < 2 * pi * of_int \<lfloor>?q\<rfloor> + 2 * pi"
    by (simp only: q distrib_left mult_1_right)
  from lo hi show ?thesis
    unfolding wrapAngle_def by linarith
qed

lemma wrapAngle_id:
  assumes "- pi \<le> a" and "a < pi"
  shows "wrapAngle a = a"
proof -
  have "\<lfloor>(a + pi) / (2 * pi)\<rfloor> = 0"
    using assms by (intro floor_unique) (simp_all add: field_simps)
  then show ?thesis
    by (simp add: wrapAngle_def)
qed

lemma wrapAngle_turns: "\<exists>n::int. wrapAngle a = a + 2 * pi * of_int n"
  by (rule exI [of _ "- \<lfloor>(a + pi) / (2 * pi)\<rfloor>"]) (simp add: wrapAngle_def)

lemma cos_whole_turns: "cos (a + 2 * pi * of_int n) = cos a"
  by (simp add: cos_add)

lemma sin_whole_turns: "sin (a + 2 * pi * of_int n) = sin a"
  by (simp add: sin_add)

lemma cos_wrapAngle: "cos (wrapAngle a + x) = cos (a + x)"
proof -
  obtain n :: int where "wrapAngle a = a + 2 * pi * of_int n"
    using wrapAngle_turns by blast
  then have "wrapAngle a + x = (a + x) + 2 * pi * of_int n"
    by simp
  then show ?thesis
    by (simp only: cos_whole_turns)
qed

lemma sin_wrapAngle: "sin (wrapAngle a + x) = sin (a + x)"
proof -
  obtain n :: int where "wrapAngle a = a + 2 * pi * of_int n"
    using wrapAngle_turns by blast
  then have "wrapAngle a + x = (a + x) + 2 * pi * of_int n"
    by simp
  then show ?thesis
    by (simp only: sin_whole_turns)
qed

lemma small_turn: "wrapAngle (- (1 / 10)) = - (1 / 10)"
  using pi_ge_two by (intro wrapAngle_id) simp_all

lemma speed_thrust:
  "speed (b\<lparr>vel_x := cos a * m, vel_y := sin a * m\<rparr>) = \<bar>m\<bar>"
proof -
  have "(cos a * m)\<^sup>2 + (sin a * m)\<^sup>2 = ((cos a)\<^sup>2 + (sin a)\<^sup>2) * m\<^sup>2"
    by (simp only: power_mult_distrib distrib_right)
  also have "\<dots> = m\<^sup>2"
    by (simp only: sin_cos_squared_add2 mult_1)
  finally show ?thesis
    by (simp add: speed_def)
qed

text \<open>What the controls leave of a player that has its body.\<close>

lemma playerControls_live:
  assumes "car_body p = Some b"
  shows "\<exists>r' b'. playerControls k p = Returned (p\<lparr>car_rotation := r', car_body := Some b'\<rparr>)
     \<and> r' = (if key_right k
              then wrapAngle ((if key_left k then wrapAngle (car_rotation p - 1 / 10)
                               else car_rotation p) + 1 / 10)
              else if key_left k then wrapAngle (car_rotation p - 1 / 10)
              else car_rotation p)
     \<and> b' = (if key_down k
              then b\<lparr>vel_x := cos (r' - pi / 2) * (- 150), vel_y := sin (r' - pi / 2) * (- 150)\<rparr>
              else if key_up k
              then b\<lparr>vel_x := cos (r' - pi / 2) * 300, vel_y := sin (r' - pi / 2) * 300\<rparr>
              else b)"
  using assms
  by (simp add: playerControls_def setRotation_def setVelocity_def Let_def)

lemma playerControls_speed:
  assumes "car_body p = Some b"
  shows "\<exists>b'. car_body (after (playerControls k p)) = Some b' \<and>
           speed b' = (if key_down k then 150 else if key_up k then 300 else speed b)"
proof -
  from playerControls_live [OF assms, of k] obtain r' b' where
    pc: "playerControls k p = Returned (p\<lparr>car_rotation := r', car_body := Some b'\<rparr>)"
    and b': "b' = (if key_down k
              then b\<lparr>vel_x := cos (r' - pi / 2) * (- 150), vel_y := sin (r' - pi / 2) * (- 150)\<rparr>
              else if key_up k
              then b\<lparr>vel_x := cos (r' - pi / 2) * 300, vel_y := sin (r' - pi / 2) * 300\<rparr>
              else b)"
    by blast
  have "speed b' = (if key_down k then 150 else if key_up k then 300 else speed b)"
    unfolding b' using speed_thrust [where b = b and a = "r' - pi / 2" and m = "- 150"]
      speed_thrust [where b = b and a = "r' - pi / 2" and m = 300]
    by simp
  with pc show ?thesis by simp
qed

lemma turned_rotation:
  "\<exists>n::int.
     (if key_right k
      then wrapAngle ((if key_left k then wrapAngle (r - 1 / 10) else r) + 1 / 10)
      else if key_left k then wrapAngle (r - 1 / 10) else r) =
     r - (if key_left k then 1 / 10 else 0) + (if key_right k then 1 / 10 else 0)
       + 2 * pi * of_int n"
proof -
  obtain n1 :: int where n1: "wrapAngle (r - 1 / 10) = r - 1 / 10 + 2 * pi * of_int n1"
    using wrapAngle_turns by blast
  obtain n2 :: int where n2: "wrapAngle (r + 1 / 10) = r + 1 / 10 + 2 * pi * of_int n2"
    using wrapAngle_turns by blast
  obtain n3 :: int where n3: "wrapAngle (wrapAngle (r - 1 / 10) + 1 / 10) =
      wrapAngle (r - 1 / 10) + 1 / 10 + 2 * pi * of_int n3"
    using wrapAngle_turns by blast
  consider "\<not> key_left k" "\<not> key_right k" | "key_left k" "\<not> key_right k"
    | "\<not> key_left k" "key_right k" | "key_left k" "key_right k"
    by blast
  then show ?thesis
  proof cases
    case 1
    then show ?thesis by (intro exI [of _ 0]) simp
  next
    case 2
    then show ?thesis using n1 by (intro exI [of _ n1]) simp
  next
    case 3
    then show ?thesis using n2 by (intro exI [of _ n2]) simp
  next
    case 4
    then show ?thesis using n1 n3
      by (intro exI [of _ "n1 + n3"]) (simp add: algebra_simps)
  qed
qed

section \<open>Update ticks\<close>

text \<open>No update tick, thrown or returned, touches the progress of the race; a tick that the
  gate lets through advances the time and steers the player before it reaches the AI
  cars.\<close>

lemma update_gated:
  "\<not> raceStarted s \<or> isPaused e \<Longrightarrow> update e k time delta s = Returned s"
  by (simp add: update_def)

lemma update_progress:
  "currentCheckpoint (after (update e k time delta s)) = currentCheckpoint s"
  "lapCount (after (update e k time delta s)) = lapCount s"
  "checkpoints (after (update e k time delta s)) = checkpoints s"
  "maxLaps (after (update e k time delta s)) = maxLaps s"
  "raceStarted (after (update e k time delta s)) = raceStarted s"
  "results (after (update e k time delta s)) = results s"
  by (simp_all add: update_def Let_def split: option.split result.split)

lemma update_player:
  assumes "raceStarted s" and "\<not> isPaused e" and "player s = Some p"
  shows "player (after (update e k time delta s)) = Some (after (playerControls k p))"
  using assms by (simp add: update_def Let_def split: option.split result.split)


lemma aiDrive_live:
  assumes "car_body c = Some b"
  shows "aiDrive (Some t) i c =
           Returned (c\<lparr>car_rotation := wrapAngle (angleBetween (car_x c) (car_y c) (fst t) (snd t) + pi / 2),
                       car_body := Some (b\<lparr>vel_x := cos (angleBetween (car_x c) (car_y c) (fst t) (snd t)) * (200 + real i * 20),
                                            vel_y := sin (angleBetween (car_x c) (car_y c) (fst t) (snd t)) * (200 + real i * 20)\<rparr>)\<rparr>)"
  using assms by (simp add: aiDrive_def setRotation_def setVelocity_def Let_def)

lemma aiDrive_destroyed:
  assumes "car_body c = None"
  shows "aiDrive (Some t) i c =
           Threw TypeError
             (c\<lparr>car_rotation := wrapAngle (angleBetween (car_x c) (car_y c) (fst t) (snd t) + pi / 2)\<rparr>)"
  using assms by (simp add: aiDrive_def setRotation_def setVelocity_def Let_def)

lemma forEachCar_live:
  assumes "\<forall>c \<in> set cs. car_body c \<noteq> None"
  shows "forEachCar (aiDrive (Some t)) i cs =
           Returned (map (\<lambda>(j, c). after (aiDrive (Some t) j c)) (enumerate i cs))"
  using assms
proof (induction cs arbitrary: i)
  case Nil
  then show ?case by simp
next
  case (Cons c cs)
  then obtain b where b: "car_body c = Some b" by auto
  from Cons have "forEachCar (aiDrive (Some t)) (Suc i) cs =
           Returned (map (\<lambda>(j, c). after (aiDrive (Some t) j c)) (enumerate (Suc i) cs))"
    by simp
  then show ?case
    by (simp add: aiDrive_live [OF b])
qed

lemma update_returns:
  assumes "player s = Some p" and "car_body p = Some b"
    and "\<forall>c \<in> set (aiCars s). car_body c \<noteq> None"
    and "currentCheckpoint s < length (checkpoints s)"
  shows "returned (update e k time delta s)"
proof -
  from playerControls_live [OF assms(2), of k] obtain r' b' where
    pc: "playerControls k p = Returned (p\<lparr>car_rotation := r', car_body := Some b'\<rparr>)"
    by blast
  have target: "checkpointAt (checkpoints s) (currentCheckpoint s) =
      Some (checkpoints s ! currentCheckpoint s)"
    using assms(4) by (simp add: checkpointAt_def)
  show ?thesis
    using assms(1)
    by (simp add: update_def Let_def pc target forEachCar_live [OF assms(3)])
qed

lemma update_first_destroyed:
  assumes "raceStarted s" and "\<not> isPaused e" and "gameMode e = Single"
    and "player s = Some p" and "car_body p = Some b"
    and "aiCars s = c # cs" and "car_body c = None"
    and "currentCheckpoint s < length (checkpoints s)"
  shows "update e k time delta s =
           Threw TypeError
             (s\<lparr>raceTime := raceTime s + delta,
                player := Some (after (playerControls k p)),
                aiCars := after (aiDrive (Some (checkpoints s ! currentCheckpoint s)) 0 c) # cs\<rparr>)"
proof -
  from playerControls_live [OF assms(5), of k] obtain r' b' where
    pc: "playerControls k p = Returned (p\<lparr>car_rotation := r', car_body := Some b'\<rparr>)"
    by blast
  have target: "checkpointAt (checkpoints s) (currentCheckpoint s) =
      Some (checkpoints s ! currentCheckpoint s)"
    using assms(8) by (simp add: checkpointAt_def)
  show ?thesis
    using assms(1-4,6)
    by (simp add: update_def Let_def pc target aiDrive_destroyed [OF assms(7)])
qed

section \<open>The sessions the scene can be in\<close>

text \<open>Every session the scene's variables can hold has the lap target 3, at least five
  checkpoints and an expected index that is one of them: the lap target is never assigned,
  the expected index is only set to 0 or advanced modulo the length, and each \<open>create\<close>
  pushes five checkpoints. The player of such a session has a body, whose speed is at
  most 300.\<close>

lemma checkpointOverlap_fields:
  "currentCheckpoint (checkpointOverlap e i s) =
     (if i = currentCheckpoint s then (currentCheckpoint s + 1) mod length (checkpoints s)
      else currentCheckpoint s)"
  "lapCount (checkpointOverlap e i s) =
     lapCount s +
     (if i = currentCheckpoint s \<and> (currentCheckpoint s + 1) mod length (checkpoints s) = 0
      then 1 else 0)"
  "checkpoints (checkpointOverlap e i s) = checkpoints s"
  "player (checkpointOverlap e i s) = player s"
  by (simp_all add: checkpointOverlap_def Let_def finishRace_frame finishRace_def)

lemma checkpointOverlap_cars:
  "aiCars (checkpointOverlap e i s) = aiCars s"
  by (simp add: checkpointOverlap_def Let_def finishRace_def)

lemma reachable_track:
  assumes "reachable e s"
  shows "5 \<le> length (checkpoints s) \<and> currentCheckpoint s < length (checkpoints s) \<and>
         maxLaps s = 3"
  using assms
proof (induction rule: reachable.induct)
  case created
  show ?case
    by (simp add: create_def initialSession_def checkpointPositions_def)
next
  case (countdown s)
  then show ?case by (simp add: countdownElapsed_def)
next
  case (tick s k time delta)
  then show ?case by (simp add: update_progress)
next
  case (overlap s index)
  then have "checkpoints s \<noteq> []" by auto
  with overlap show ?case
    by (simp add: checkpointOverlap_fields checkpointOverlap_def finishRace_frame Let_def)
next
  case (physics s s')
  then show ?case by (auto simp: physicsStep_def)
next
  case (restarted s)
  then show ?case
    by (simp add: restartScene_def create_def shutdown_def checkpointPositions_def)
next
  case (reset s)
  then show ?case by (auto simp: handleRestart_def)
qed

lemma reachable_player:
  assumes "reachable e s"
  shows "\<exists>p b. player s = Some p \<and> car_body p = Some b \<and> speed b \<le> 300"
  using assms
proof (induction rule: reachable.induct)
  case created
  show ?case
    by (simp add: create_def newCar_def speed_def)
next
  case (countdown s)
  then show ?case by (simp add: countdownElapsed_def)
next
  case (tick s k time delta)
  then obtain p b where p: "player s = Some p" "car_body p = Some b" "speed b \<le> 300"
    by blast
  show ?case
  proof (cases "raceStarted s \<and> \<not> isPaused e")
    case True
    from playerControls_speed [OF p(2), of k] obtain b' where
      "car_body (after (playerControls k p)) = Some b'"
      "speed b' = (if key_down k then 150 else if key_up k then 300 else speed b)"
      by blast
    with p(3) True update_player [of s e p k time delta] p(1) show ?thesis
      by auto
  next
    case False
    then have "update e k time delta s = Returned s"
      by (auto simp: update_gated)
    with p show ?thesis by simp
  qed
next
  case (overlap s index)
  then show ?case
    by (simp add: checkpointOverlap_fields)
next
  case (physics s s')
  then obtain p b where p: "player s = Some p" "car_body p = Some b" "speed b \<le> 300"
    by blast
  from physics(2) obtain p' where p': "player s' = p'" "rel_option carried (player s) p'"
    by (auto simp: physicsStep_def)
  with p(1) obtain q where q: "p' = Some q" "carried p q"
    by (auto simp: option_rel_Some1)
  from q(2) p(2) obtain b' where "car_body q = Some b'" "speed b' \<le> speed b"
    by (auto simp: carried_def split: option.splits)
  with p(3) p'(1) q(1) show ?case by auto
next
  case (restarted s)
  show ?case
    by (simp add: restartScene_def create_def newCar_def speed_def)
next
  case (reset s)
  then show ?case by (simp add: handleRestart_def)
qed

lemma startedRace_facts:
  "raceStarted (startedRace e)" "currentCheckpoint (startedRace e) = 0"
  "lapCount (startedRace e) = 0" "length (checkpoints (startedRace e)) = 5"
  "player (startedRace e) = Some (newCar 120 150 100 300)"
  "\<forall>c \<in> set (aiCars (startedRace e)). car_body c \<noteq> None"
  "maxLaps (startedRace e) = 3" "results (startedRace e) = []" "raceTime (startedRace e) = 0"
  by (auto simp: startedRace_def countdownElapsed_def create_def initialSession_def
      checkpointPositions_def newCar_def)

lemma startedRace_reachable: "reachable e (startedRace e)"
  unfolding startedRace_def by (intro reachable.countdown reachable.created)

section \<open>One occupancy of a checkpoint\<close>

lemma next_index_differs:
  assumes "2 \<le> N"
  shows "(c + 1) mod N \<noteq> (c::nat)"
proof (cases "c + 1 < N")
  case True
  then show ?thesis by simp
next
  case False
  show ?thesis
  proof (cases "c + 1 = N")
    case True
    with assms show ?thesis by simp
  next
    case False
    with \<open>\<not> c + 1 < N\<close> have "N \<le> c" by simp
    moreover have "(c + 1) mod N < N" using assms by simp
    ultimately show ?thesis by linarith
  qed
qed

lemma fire_progress:
  assumes "occupies i ev" and "i \<noteq> currentCheckpoint s"
  shows "currentCheckpoint (after (fire e ev s)) = currentCheckpoint s \<and>
         lapCount (after (fire e ev s)) = lapCount s \<and>
         checkpoints (after (fire e ev s)) = checkpoints s"
proof (cases ev)
  case (Tick k time delta)
  then show ?thesis by (simp add: fire_def update_progress)
next
  case (Overlap j)
  with assms have "checkpointOverlap e j s = s"
    by (simp add: occupies_def checkpointOverlap_def)
  with Overlap show ?thesis by (simp add: fire_def)
qed

lemma run_after_advance:
  assumes "list_all (occupies i) evs"
  shows "i \<noteq> currentCheckpoint s \<Longrightarrow>
         currentCheckpoint (after (run e evs s)) = currentCheckpoint s \<and>
         lapCount (after (run e evs s)) = lapCount s"
  using assms
proof (induction evs arbitrary: s)
  case Nil
  then show ?case by simp
next
  case (Cons ev evs)
  from Cons.prems have rest: "list_all (occupies i) evs" and here: "occupies i ev"
    by simp_all
  note f = fire_progress [OF here Cons.prems(1), of e]
  show ?case
  proof (cases "fire e ev s")
    case (Returned s')
    with f have same: "currentCheckpoint s' = currentCheckpoint s" "lapCount s' = lapCount s"
      by simp_all
    with Cons.IH [of s'] Cons.prems(1) rest Returned show ?thesis
      by simp
  next
    case (Threw err s')
    with f show ?thesis by simp
  qed
qed

lemma run_occupancy_expected:
  assumes "2 \<le> length (checkpoints s)" and "list_all (occupies i) evs"
  shows "i = currentCheckpoint s \<Longrightarrow>
         ((currentCheckpoint (after (run e evs s)) = currentCheckpoint s \<and>
           lapCount (after (run e evs s)) = lapCount s) \<or>
          (currentCheckpoint (after (run e evs s)) = currentCheckpoint (checkpointOverlap e i s) \<and>
           lapCount (after (run e evs s)) = lapCount (checkpointOverlap e i s))) \<and>
         (returned (run e evs s) \<and> Overlap i \<in> set evs \<longrightarrow>
            currentCheckpoint (after (run e evs s)) = currentCheckpoint (checkpointOverlap e i s) \<and>
            lapCount (after (run e evs s)) = lapCount (checkpointOverlap e i s)) \<and>
         (Overlap i \<notin> set evs \<longrightarrow>
            currentCheckpoint (after (run e evs s)) = currentCheckpoint s \<and>
            lapCount (after (run e evs s)) = lapCount s)"
  using assms
proof (induction evs arbitrary: s)
  case Nil
  then show ?case by simp
next
  case (Cons ev evs)
  from Cons.prems have rest: "list_all (occupies i) evs" and here: "occupies i ev"
    by simp_all
  show ?case
  proof (cases ev)
    case (Tick k time delta)
    let ?r = "update e k time delta s"
    have keep: "currentCheckpoint (after ?r) = currentCheckpoint s"
      "lapCount (after ?r) = lapCount s" "checkpoints (after ?r) = checkpoints s"
      by (simp_all add: update_progress)
    show ?thesis
    proof (cases ?r)
      case (Returned s')
      with keep have s': "currentCheckpoint s' = currentCheckpoint s"
        "lapCount s' = lapCount s" "checkpoints s' = checkpoints s"
        by simp_all
      then have ov: "currentCheckpoint (checkpointOverlap e i s') =
            currentCheckpoint (checkpointOverlap e i s)"
        "lapCount (checkpointOverlap e i s') = lapCount (checkpointOverlap e i s)"
        by (simp_all add: checkpointOverlap_fields)
      from Cons.IH [of s'] Cons.prems s' rest
      have "((currentCheckpoint (after (run e evs s')) = currentCheckpoint s' \<and>
           lapCount (after (run e evs s')) = lapCount s') \<or>
          (currentCheckpoint (after (run e evs s')) = currentCheckpoint (checkpointOverlap e i s') \<and>
           lapCount (after (run e evs s')) = lapCount (checkpointOverlap e i s'))) \<and>
         (returned (run e evs s') \<and> Overlap i \<in> set evs \<longrightarrow>
            currentCheckpoint (after (run e evs s')) = currentCheckpoint (checkpointOverlap e i s') \<and>
            lapCount (after (run e evs s')) = lapCount (checkpointOverlap e i s')) \<and>
         (Overlap i \<notin> set evs \<longrightarrow>
            currentCheckpoint (after (run e evs s')) = currentCheckpoint s' \<and>
            lapCount (after (run e evs s')) = lapCount s')"
        by simp
      with Returned Tick s' ov show ?thesis
        by (simp add: fire_def)
    next
      case (Threw err s')
      with keep Tick show ?thesis
        by (simp add: fire_def)
    qed
  next
    case (Overlap j)
    with here have j: "j = i" by (simp add: occupies_def)
    let ?s' = "checkpointOverlap e i s"
    have moved: "i \<noteq> currentCheckpoint ?s'"
      using Cons.prems(1,2) next_index_differs [of "length (checkpoints s)" "currentCheckpoint s"]
      by (simp add: checkpointOverlap_fields)
    from run_after_advance [OF rest moved, of e]
    have "currentCheckpoint (after (run e evs ?s')) = currentCheckpoint ?s'"
      "lapCount (after (run e evs ?s')) = lapCount ?s'"
      by simp_all
    with Overlap j show ?thesis by (simp add: fire_def)
  qed
qed

lemma occupancy_general:
  assumes "2 \<le> length (checkpoints s)" and "list_all (occupies i) evs"
  shows "((currentCheckpoint (after (run e evs s)) = currentCheckpoint s \<and>
           lapCount (after (run e evs s)) = lapCount s) \<or>
          (currentCheckpoint (after (run e evs s)) = currentCheckpoint (checkpointOverlap e i s) \<and>
           lapCount (after (run e evs s)) = lapCount (checkpointOverlap e i s))) \<and>
         (returned (run e evs s) \<and> Overlap i \<in> set evs \<longrightarrow>
            currentCheckpoint (after (run e evs s)) = currentCheckpoint (checkpointOverlap e i s) \<and>
            lapCount (after (run e evs s)) = lapCount (checkpointOverlap e i s)) \<and>
         (Overlap i \<notin> set evs \<longrightarrow>
            currentCheckpoint (after (run e evs s)) = currentCheckpoint s \<and>
            lapCount (after (run e evs s)) = lapCount s)"
proof (cases "i = currentCheckpoint s")
  case True
  then show ?thesis
    using run_occupancy_expected [OF assms True, of e] by simp
next
  case False
  then have "checkpointOverlap e i s = s"
    by (simp add: checkpointOverlap_def)
  then show ?thesis
    using run_after_advance [OF assms(2) False, of e] by simp
qed

lemma deliver_after_advance:
  assumes "list_all (occupies i) evs"
  shows "i \<noteq> currentCheckpoint s \<Longrightarrow>
         currentCheckpoint (deliver e evs s) = currentCheckpoint s \<and>
         lapCount (deliver e evs s) = lapCount s"
  using assms
proof (induction evs arbitrary: s)
  case Nil
  then show ?case by simp
next
  case (Cons ev evs)
  from Cons.prems have rest: "list_all (occupies i) evs" and here: "occupies i ev"
    by simp_all
  note f = fire_progress [OF here Cons.prems(1), of e]
  with Cons.IH [of "after (fire e ev s)"] Cons.prems(1) rest show ?case
    by simp
qed

lemma deliver_occupancy:
  assumes "2 \<le> length (checkpoints s)" and "list_all (occupies i) evs"
  shows "currentCheckpoint (deliver e evs s) =
           currentCheckpoint (if Overlap i \<in> set evs then checkpointOverlap e i s else s) \<and>
         lapCount (deliver e evs s) =
           lapCount (if Overlap i \<in> set evs then checkpointOverlap e i s else s)"
  using assms
proof (induction evs arbitrary: s)
  case Nil
  then show ?case by simp
next
  case (Cons ev evs)
  from Cons.prems have rest: "list_all (occupies i) evs" and here: "occupies i ev"
    by simp_all
  show ?case
  proof (cases ev)
    case (Tick k time delta)
    let ?s' = "after (update e k time delta s)"
    have keep: "currentCheckpoint ?s' = currentCheckpoint s"
      "lapCount ?s' = lapCount s" "checkpoints ?s' = checkpoints s"
      by (simp_all add: update_progress)
    then have ov: "currentCheckpoint (checkpointOverlap e i ?s') =
          currentCheckpoint (checkpointOverlap e i s)"
      "lapCount (checkpointOverlap e i ?s') = lapCount (checkpointOverlap e i s)"
      by (simp_all add: checkpointOverlap_fields)
    from Cons.IH [of ?s'] Cons.prems(1) keep rest
    have "currentCheckpoint (deliver e evs ?s') =
           currentCheckpoint (if Overlap i \<in> set evs then checkpointOverlap e i ?s' else ?s') \<and>
         lapCount (deliver e evs ?s') =
           lapCount (if Overlap i \<in> set evs then checkpointOverlap e i ?s' else ?s')"
      by simp
    with Tick keep ov show ?thesis
      by (simp add: fire_def)
  next
    case (Overlap j)
    with here have j: "j = i" by (simp add: occupies_def)
    let ?s' = "checkpointOverlap e i s"
    show ?thesis
    proof (cases "i = currentCheckpoint s")
      case True
      have moved: "i \<noteq> currentCheckpoint ?s'"
        using Cons.prems(1) True
          next_index_differs [of "length (checkpoints s)" "currentCheckpoint s"]
        by (simp add: checkpointOverlap_fields)
      from deliver_after_advance [OF rest moved, of e] Overlap j show ?thesis
        by (simp add: fire_def)
    next
      case False
      then have same: "?s' = s" by (simp add: checkpointOverlap_def)
      from deliver_after_advance [OF rest False, of e] Overlap j same show ?thesis
        by (simp add: fire_def)
    qed
  qed
qed

text \<open>
  Claim C3. Take any session the scene can be in (or any session with at least two
  checkpoints) and deliver any run of update ticks and overlap callbacks of one and the same
  checkpoint \<open>i\<close>: one occupancy of its region, however many physics steps it lasts. Whether
  the run returns or ends on a tick that throws, the expected index and the lap count end
  either as they were or as a single overlap callback of \<open>i\<close> leaves them: they advance at
  most once. When the run returns and a callback was delivered they are as exactly one
  callback leaves them; when none was delivered they are unchanged. If the engine goes on
  delivering after a tick that threw, the whole list leaves them as exactly one callback
  does, or unchanged when it holds none. The callbacks after the first find the expected
  index moved on and do nothing.
\<close>

theorem one_advance_per_occupancy:
  assumes "reachable e s \<or> 2 \<le> length (checkpoints s)" and "list_all (occupies i) evs"
  shows "((currentCheckpoint (after (run e evs s)) = currentCheckpoint s \<and>
           lapCount (after (run e evs s)) = lapCount s) \<or>
          (currentCheckpoint (after (run e evs s)) = currentCheckpoint (checkpointOverlap e i s) \<and>
           lapCount (after (run e evs s)) = lapCount (checkpointOverlap e i s))) \<and>
         (returned (run e evs s) \<and> Overlap i \<in> set evs \<longrightarrow>
            currentCheckpoint (after (run e evs s)) = currentCheckpoint (checkpointOverlap e i s) \<and>
            lapCount (after (run e evs s)) = lapCount (checkpointOverlap e i s)) \<and>
         (Overlap i \<notin> set evs \<longrightarrow>
            currentCheckpoint (after (run e evs s)) = currentCheckpoint s \<and>
            lapCount (after (run e evs s)) = lapCount s) \<and>
         currentCheckpoint (deliver e evs s) =
           currentCheckpoint (if Overlap i \<in> set evs then checkpointOverlap e i s else s) \<and>
         lapCount (deliver e evs s) =
           lapCount (if Overlap i \<in> set evs then checkpointOverlap e i s else s)"
proof -
  from assms(1) have N: "2 \<le> length (checkpoints s)"
    using reachable_track [of e s] by auto
  from occupancy_general [OF N assms(2), of e] deliver_occupancy [OF N assms(2), of e]
  show ?thesis
    by blast
qed

theorem one_advance_per_occupancy_witness:
  "reachable soloEnv (startedRace soloEnv)
   \<and> list_all (occupies 0) [Overlap 0, Tick noKeys 0 16, Overlap 0, Overlap 0]
   \<and> returned (run soloEnv [Overlap 0, Tick noKeys 0 16, Overlap 0, Overlap 0] (startedRace soloEnv))
   \<and> currentCheckpoint
        (after (run soloEnv [Overlap 0, Tick noKeys 0 16, Overlap 0, Overlap 0] (startedRace soloEnv))) = 1
   \<and> lapCount
        (after (run soloEnv [Overlap 0, Tick noKeys 0 16, Overlap 0, Overlap 0] (startedRace soloEnv))) = 0"
proof -
  let ?s = "startedRace soloEnv"
  let ?evs = "[Overlap 0, Tick noKeys 0 16, Overlap 0, Overlap 0]"
  let ?a = "checkpointOverlap soloEnv 0 ?s"
  have h: "reachable soloEnv ?s \<or> 2 \<le> length (checkpoints ?s)"
    using startedRace_reachable by blast
  have o: "list_all (occupies 0) ?evs"
    by (simp add: occupies_def)
  have f: "currentCheckpoint ?a = 1" "lapCount ?a = 0"
    by (simp_all add: checkpointOverlap_fields startedRace_facts)
  have "returned (update soloEnv noKeys 0 16 ?a)"
    by (rule update_returns [where p = "newCar 120 150 100 300"])
      (simp_all add: checkpointOverlap_fields checkpointOverlap_cars startedRace_facts newCar_def)
  then obtain b where b: "update soloEnv noKeys 0 16 ?a = Returned b"
    by (cases "update soloEnv noKeys 0 16 ?a") simp_all
  have r: "returned (run soloEnv ?evs ?s)"
    by (simp add: fire_def b)
  have m: "Overlap 0 \<in> set ?evs"
    by simp
  from one_advance_per_occupancy [OF h o] r m
  have "currentCheckpoint (after (run soloEnv ?evs ?s)) = currentCheckpoint ?a"
    "lapCount (after (run soloEnv ?evs ?s)) = lapCount ?a"
    by blast+
  with f have "currentCheckpoint (after (run soloEnv ?evs ?s)) = 1"
    "lapCount (after (run soloEnv ?evs ?s)) = 0"
    by (simp_all only:)
  with startedRace_reachable [of soloEnv] o r show ?thesis
    by blast
qed

section \<open>The player's controls on a tick\<close>

text \<open>
  Claim C5, as amended. On an update tick of a started race, in any session the scene can
  be in and with the gate of \<open>update\<close> open, the player's heading changes by a fixed 0.1
  for each of the left key (minus) and the right key (plus), whatever the delta of the
  tick: it is the old heading minus and plus these, up to whole turns, so the direction is
  that of the turned heading, and the stored rotation is kept in the range from \<open>- pi\<close> to
  \<open>pi\<close>. With the down key the velocity is set to 150 along the reverse of the new heading;
  with the up key and not the down key it is set to 300 along the new heading; with neither,
  the tick leaves the velocity as it was. For every combination of keys the speed after the
  tick is at most 300. This holds of the player also when the tick throws later, in the
  loop over the AI cars.
\<close>

theorem player_controls_tick:
  assumes "reachable e s" and "raceStarted s" and "\<not> isPaused e"
  shows "\<exists>p b p' b'. player s = Some p \<and> car_body p = Some b
     \<and> player (after (update e k time delta s)) = Some p' \<and> car_body p' = Some b'
     \<and> (\<exists>n::int. heading p' =
           heading p - (if key_left k then 1 / 10 else 0) + (if key_right k then 1 / 10 else 0)
             + 2 * pi * of_int n)
     \<and> cos (heading p') =
         cos (heading p - (if key_left k then 1 / 10 else 0) + (if key_right k then 1 / 10 else 0))
     \<and> sin (heading p') =
         sin (heading p - (if key_left k then 1 / 10 else 0) + (if key_right k then 1 / 10 else 0))
     \<and> (key_left k \<or> key_right k \<longrightarrow> - pi \<le> car_rotation p' \<and> car_rotation p' < pi)
     \<and> (\<not> key_left k \<and> \<not> key_right k \<longrightarrow> car_rotation p' = car_rotation p)
     \<and> (key_down k \<longrightarrow>
          vel_x b' = cos (heading p') * (- 150) \<and>
          vel_y b' = sin (heading p') * (- 150) \<and> speed b' = 150)
     \<and> (key_up k \<and> \<not> key_down k \<longrightarrow>
          vel_x b' = cos (heading p') * 300 \<and>
          vel_y b' = sin (heading p') * 300 \<and> speed b' = 300)
     \<and> (\<not> key_up k \<and> \<not> key_down k \<longrightarrow> vel_x b' = vel_x b \<and> vel_y b' = vel_y b)
     \<and> speed b' \<le> 300"
proof -
  from reachable_player [OF assms(1)] obtain p b where
    p: "player s = Some p" "car_body p = Some b" "speed b \<le> 300"
    by blast
  let ?l = "if key_left k then 1 / 10 else (0::real)"
  let ?r = "if key_right k then 1 / 10 else (0::real)"
  from playerControls_live [OF p(2), of k] obtain r' b' where
    pc: "playerControls k p = Returned (p\<lparr>car_rotation := r', car_body := Some b'\<rparr>)"
    and r': "r' = (if key_right k
              then wrapAngle ((if key_left k then wrapAngle (car_rotation p - 1 / 10)
                               else car_rotation p) + 1 / 10)
              else if key_left k then wrapAngle (car_rotation p - 1 / 10)
              else car_rotation p)"
    and b': "b' = (if key_down k
              then b\<lparr>vel_x := cos (r' - pi / 2) * (- 150), vel_y := sin (r' - pi / 2) * (- 150)\<rparr>
              else if key_up k
              then b\<lparr>vel_x := cos (r' - pi / 2) * 300, vel_y := sin (r' - pi / 2) * 300\<rparr>
              else b)"
    by blast
  let ?p' = "p\<lparr>car_rotation := r', car_body := Some b'\<rparr>"
  have after: "player (after (update e k time delta s)) = Some ?p'"
    using update_player [OF assms(2,3) p(1), of k time delta] pc by simp
  from turned_rotation [of k "car_rotation p"] r' obtain n :: int where
    n: "r' = car_rotation p - ?l + ?r + 2 * pi * of_int n"
    by auto
  have turn: "heading ?p' = heading p - ?l + ?r + 2 * pi * of_int n"
    using n by (simp add: heading_def)
  have dir: "cos (heading ?p') = cos (heading p - ?l + ?r)"
    "sin (heading ?p') = sin (heading p - ?l + ?r)"
    unfolding turn by (rule cos_whole_turns, rule sin_whole_turns)
  have range: "key_left k \<or> key_right k \<Longrightarrow> - pi \<le> r' \<and> r' < pi"
    unfolding r' using wrapAngle_range by auto
  have still: "\<not> key_left k \<and> \<not> key_right k \<Longrightarrow> r' = car_rotation p"
    unfolding r' by simp
  have sp: "speed b' = (if key_down k then 150 else if key_up k then 300 else speed b)"
    unfolding b'
    using speed_thrust [where b = b and a = "r' - pi / 2" and m = "- 150"]
      speed_thrust [where b = b and a = "r' - pi / 2" and m = 300]
    by simp
  have cap: "speed b' \<le> 300"
    using sp p(3) by simp
  have down: "key_down k \<Longrightarrow>
      vel_x b' = cos (heading ?p') * (- 150) \<and> vel_y b' = sin (heading ?p') * (- 150) \<and>
      speed b' = 150"
    using sp by (simp add: b' heading_def)
  have up: "key_up k \<and> \<not> key_down k \<Longrightarrow>
      vel_x b' = cos (heading ?p') * 300 \<and> vel_y b' = sin (heading ?p') * 300 \<and> speed b' = 300"
    using sp by (simp add: b' heading_def)
  have coast: "\<not> key_up k \<and> \<not> key_down k \<Longrightarrow> vel_x b' = vel_x b \<and> vel_y b' = vel_y b"
    by (simp add: b')
  have body: "car_body ?p' = Some b'" and rot: "car_rotation ?p' = r'"
    by simp_all
  show ?thesis
    apply (rule exI [of _ p], rule exI [of _ b], rule exI [of _ ?p'], rule exI [of _ b'])
    using p(1,2) after body turn dir range still down up coast cap
    unfolding rot
    by blast
qed

theorem player_controls_tick_witness:
  "reachable soloEnv (startedRace soloEnv) \<and> raceStarted (startedRace soloEnv)
   \<and> \<not> isPaused soloEnv
   \<and> playerRotation (after (update soloEnv upKey 0 16 (startedRace soloEnv))) = Some 0
   \<and> playerVelocity (after (update soloEnv upKey 0 16 (startedRace soloEnv))) = Some (0, - 300)"
proof -
  let ?s = "startedRace soloEnv"
  have h: "reachable soloEnv ?s" "raceStarted ?s" "\<not> isPaused soloEnv"
    by (simp_all add: startedRace_reachable startedRace_facts soloEnv_def)
  have k: "key_up upKey" "\<not> key_down upKey" "\<not> key_left upKey" "\<not> key_right upKey"
    by (simp_all add: upKey_def noKeys_def)
  from player_controls_tick [OF h, of upKey 0 16] obtain p b p' b' where
    w: "player ?s = Some p" "player (after (update soloEnv upKey 0 16 ?s)) = Some p'"
      "car_body p' = Some b'" "car_rotation p' = car_rotation p"
      "vel_x b' = cos (heading p') * 300" "vel_y b' = sin (heading p') * 300"
    using k by auto
  from w(1) have p: "car_rotation p = 0"
    by (auto simp: startedRace_facts newCar_def)
  with w(4) have r: "car_rotation p' = 0" "heading p' = - (pi / 2)"
    by (simp_all add: heading_def)
  from w(5,6) r have v: "vel_x b' = 0" "vel_y b' = - 300"
    by simp_all
  from w(2,3) r(1) v have "playerRotation (after (update soloEnv upKey 0 16 ?s)) = Some 0"
    "playerVelocity (after (update soloEnv upKey 0 16 ?s)) = Some (0, - 300)"
    by (simp_all add: playerRotation_def playerVelocity_def bodyVelocity_def)
  with h show ?thesis by blast
qed

text \<open>
  The turn does not scale with the delta: a tick of 16 and a tick of 32, with the left key
  held, both turn the player from 0 to - 0.1. And with the up and the down key both held the
  velocity is the brake's, 150 along the reverse heading, not the thrust's.
\<close>

theorem turn_ignores_delta:
  "playerRotation (startedRace soloEnv) = Some 0
   \<and> playerRotation (after (update soloEnv leftKey 0 16 (startedRace soloEnv))) = Some (- (1 / 10))
   \<and> playerRotation (after (update soloEnv leftKey 16 32 (startedRace soloEnv))) = Some (- (1 / 10))
   \<and> playerVelocity (after (update soloEnv upKey 0 16 (startedRace soloEnv))) = Some (0, - 300)
   \<and> playerVelocity (after (update soloEnv upDownKeys 0 16 (startedRace soloEnv))) = Some (0, 150)"
proof -
  let ?s = "startedRace soloEnv"
  let ?p = "newCar 120 150 100 300"
  have h: "raceStarted ?s" "\<not> isPaused soloEnv" "player ?s = Some ?p"
    by (simp_all add: startedRace_facts soloEnv_def)
  have b: "car_body ?p = Some \<lparr>vel_x = 0, vel_y = 0, body_drag = 100, body_maxVelocity = 300\<rparr>"
    "car_rotation ?p = 0"
    by (simp_all add: newCar_def)
  have left: "playerRotation (after (update soloEnv leftKey t d ?s)) = Some (- (1 / 10))" for t d
    using update_player [OF h, of leftKey t d] playerControls_live [OF b(1), of leftKey]
    by (auto simp: playerRotation_def leftKey_def noKeys_def b(2) small_turn)
  have up: "playerVelocity (after (update soloEnv upKey 0 16 ?s)) = Some (0, - 300)"
    using update_player [OF h, of upKey 0 16] playerControls_live [OF b(1), of upKey]
    by (auto simp: playerVelocity_def bodyVelocity_def upKey_def noKeys_def b(2))
  have both: "playerVelocity (after (update soloEnv upDownKeys 0 16 ?s)) = Some (0, 150)"
    using update_player [OF h, of upDownKeys 0 16] playerControls_live [OF b(1), of upDownKeys]
    by (auto simp: playerVelocity_def bodyVelocity_def upDownKeys_def noKeys_def b(2))
  have start: "playerRotation ?s = Some 0"
    by (simp add: playerRotation_def h(3) b(2))
  from start left [of 0 16] left [of 16 32] up both show ?thesis
    by blast
qed

section \<open>The AI cars\<close>

text \<open>While every AI car has its body and the expected index is one of the checkpoints,
  the loop does what is asked of it: the tick returns, and each car \<open>i\<close> is turned to the
  bearing from its position to the expected checkpoint (its stored rotation is the bearing
  plus a quarter turn, brought into range, so its heading has the direction of the bearing)
  and gets the velocity of speed \<open>200 + 20 * i\<close> along that bearing.\<close>

lemma ai_cars_driven:
  assumes "raceStarted s" and "\<not> isPaused e" and "gameMode e = Single"
    and "player s = Some p" and "car_body p = Some b"
    and "\<forall>c \<in> set (aiCars s). car_body c \<noteq> None"
    and "currentCheckpoint s < length (checkpoints s)"
    and "i < length (aiCars s)"
  shows "returned (update e k time delta s) \<and>
     length (aiCars (after (update e k time delta s))) = length (aiCars s) \<and>
     (let target = checkpoints s ! currentCheckpoint s;
          bearing = angleBetween (car_x (aiCars s ! i)) (car_y (aiCars s ! i))
                      (fst target) (snd target);
          c' = aiCars (after (update e k time delta s)) ! i
      in car_rotation c' = wrapAngle (bearing + pi / 2)
       \<and> cos (heading c') = cos bearing \<and> sin (heading c') = sin bearing
       \<and> bodyVelocity c' =
           Some (cos bearing * (200 + 20 * real i), sin bearing * (200 + 20 * real i))
       \<and> (\<exists>b'. car_body c' = Some b' \<and> speed b' = 200 + 20 * real i))"
proof -
  from playerControls_live [OF assms(5), of k] obtain r' b' where
    pc: "playerControls k p = Returned (p\<lparr>car_rotation := r', car_body := Some b'\<rparr>)"
    by blast
  let ?t = "checkpoints s ! currentCheckpoint s"
  have target: "checkpointAt (checkpoints s) (currentCheckpoint s) = Some ?t"
    using assms(7) by (simp add: checkpointAt_def)
  let ?cars = "map (\<lambda>(j, c). after (aiDrive (Some ?t) j c)) (enumerate 0 (aiCars s))"
  have cars: "aiCars (after (update e k time delta s)) = ?cars"
    and ret: "returned (update e k time delta s)"
    using assms(1-4)
    by (simp_all add: update_def Let_def pc target forEachCar_live [OF assms(6)])
  from assms(6,8) obtain bi where bi: "car_body (aiCars s ! i) = Some bi"
    by (metis not_None_eq nth_mem)
  have nth: "?cars ! i = after (aiDrive (Some ?t) i (aiCars s ! i))"
    using assms(8) by (simp add: nth_enumerate_eq)
  let ?a = "angleBetween (car_x (aiCars s ! i)) (car_y (aiCars s ! i)) (fst ?t) (snd ?t)"
  have c0: "cos (wrapAngle (?a + pi / 2) + (- (pi / 2))) = cos ?a"
    "sin (wrapAngle (?a + pi / 2) + (- (pi / 2))) = sin ?a"
    by (simp_all only: cos_wrapAngle sin_wrapAngle) simp_all
  have sp: "speed (bi\<lparr>vel_x := cos ?a * (200 + real i * 20), vel_y := sin ?a * (200 + real i * 20)\<rparr>) =
      200 + real i * 20"
    using speed_thrust [where b = bi and a = ?a and m = "200 + real i * 20"] by simp
  show ?thesis
    using c0 sp
    by (simp add: ret cars nth aiDrive_live [OF bi] Let_def heading_def bodyVelocity_def
        mult.commute del: map_eq_conv)
qed

text \<open>The component after the first \<open>create\<close> and the countdown, and after a click on
  the restart button and the engine's restart: the scene's variables still hold the
  started race, and \<open>create\<close> has pushed three new cars behind the three destroyed
  ones.\<close>

lemma startedComponent_eq:
  "startedComponent e =
     \<lparr>vars = [startedRace e, initialSession], built = 0, isPausedState = False,
      gameLoadedState = True, scenePaused = False, restartQueued = False\<rparr>"
  by (simp add: startedComponent_def sceneCreate_def onScene_def sceneVars_def mounted_def
      rerender_def startedRace_def Let_def)

lemma restartedComponent_eq:
  "restartedComponent e =
     \<lparr>vars = [restartScene e (startedRace e), handleRestart initialSession], built = 0,
      isPausedState = False, gameLoadedState = True, scenePaused = False,
      restartQueued = False\<rparr>"
  by (simp add: restartedComponent_def startedComponent_eq restartClicked_def
      processRestart_def sceneCreate_def onScene_def sceneVars_def rerender_def
      restartScene_def Let_def)

lemma restartScene_started:
  "raceStarted (restartScene soloEnv (startedRace soloEnv))"
  "player (restartScene soloEnv (startedRace soloEnv)) = Some (newCar 120 150 100 300)"
  "currentCheckpoint (restartScene soloEnv (startedRace soloEnv)) = 0"
  "length (checkpoints (restartScene soloEnv (startedRace soloEnv))) = 10"
  "aiCars (restartScene soloEnv (startedRace soloEnv)) =
     destroyCar (newCar 120 180 80 250) #
       [destroyCar (newCar 120 210 80 250), destroyCar (newCar 120 240 80 250),
        newCar 120 180 80 250, newCar 120 210 80 250, newCar 120 240 80 250]"
  by (simp_all add: restartScene_def create_def shutdown_def startedRace_def
      countdownElapsed_def initialSession_def checkpointPositions_def soloEnv_def
      upt_rec numeral_eq_Suc)

text \<open>
  Claim C6 fails after a restart. In the single-player game, start the race, click the
  restart button and let the engine restart the scene. The scene is running and the race
  is still started; the first three of the six AI cars are the destroyed ones. The next
  frame's update throws at the first of them, and no AI car has been given a velocity: the
  three live cars still have the velocity (0, 0).
\<close>

theorem ai_loop_throws_after_restart:
  "sceneVars (restartedComponent soloEnv) = restartScene soloEnv (startedRace soloEnv)
   \<and> \<not> scenePaused (restartedComponent soloEnv)
   \<and> raceStarted (sceneVars (restartedComponent soloEnv))
   \<and> aiVelocities (sceneVars (restartedComponent soloEnv)) =
       [None, None, None, Some (0, 0), Some (0, 0), Some (0, 0)]
   \<and> \<not> returned (frame soloEnv noKeys 0 16 (restartedComponent soloEnv))
   \<and> thrown (frame soloEnv noKeys 0 16 (restartedComponent soloEnv)) = TypeError
   \<and> aiVelocities (sceneVars (after (frame soloEnv noKeys 0 16 (restartedComponent soloEnv)))) =
       [None, None, None, Some (0, 0), Some (0, 0), Some (0, 0)]"
proof -
  let ?c = "restartedComponent soloEnv"
  let ?s = "restartScene soloEnv (startedRace soloEnv)"
  have sv: "sceneVars ?c = ?s" and run: "\<not> scenePaused ?c"
    by (simp_all add: restartedComponent_eq sceneVars_def)
  have gm: "gameMode soloEnv = Single" "\<not> isPaused soloEnv"
    by (simp_all add: soloEnv_def)
  have before: "aiVelocities ?s = [None, None, None, Some (0, 0), Some (0, 0), Some (0, 0)]"
    by (simp add: aiVelocities_def restartScene_started bodyVelocity_def destroyCar_def newCar_def)
  have u: "update soloEnv noKeys 0 16 ?s =
      Threw TypeError
        (?s\<lparr>raceTime := raceTime ?s + 16,
            player := Some (after (playerControls noKeys (newCar 120 150 100 300))),
            aiCars := after (aiDrive (Some (checkpoints ?s ! currentCheckpoint ?s)) 0
                         (destroyCar (newCar 120 180 80 250))) #
              [destroyCar (newCar 120 210 80 250), destroyCar (newCar 120 240 80 250),
               newCar 120 180 80 250, newCar 120 210 80 250, newCar 120 240 80 250]\<rparr>)"
    by (rule update_first_destroyed)
      (simp_all add: restartScene_started gm newCar_def destroyCar_def)
  have d: "car_body (after (aiDrive (Some t) 0 (destroyCar (newCar 120 180 80 250)))) = None" for t
    by (simp add: aiDrive_destroyed destroyCar_def newCar_def)
  have f: "frame soloEnv noKeys 0 16 ?c =
      Threw TypeError (onScene (\<lambda>s. after (update soloEnv noKeys 0 16 ?s)) ?c)"
    using run by (simp add: frame_def sv u)
  have after: "sceneVars (after (frame soloEnv noKeys 0 16 ?c)) =
      after (update soloEnv noKeys 0 16 ?s)"
    unfolding f by (simp add: onScene_def sceneVars_def restartedComponent_eq)
  have "aiVelocities (after (update soloEnv noKeys 0 16 ?s)) =
      [None, None, None, Some (0, 0), Some (0, 0), Some (0, 0)]"
    by (simp add: u aiVelocities_def bodyVelocity_def d) (simp add: destroyCar_def newCar_def)
  with sv run before f after show ?thesis
    by (simp add: restartScene_started)
qed

section \<open>Pausing\<close>




lemma sceneVars_rerender:
  "built c < length (vars c) \<Longrightarrow> sceneVars (rerender c) = sceneVars c"
  by (simp add: rerender_def sceneVars_def nth_append)









section \<open>Restarting\<close>

text \<open>A click on the restart button resets the scene's variables only when the last render
  is the one that built the game; otherwise they stay as they are. The engine's restart
  then runs \<open>create\<close> on them with the cars destroyed. Either way the expected index stays
  one of the checkpoints.\<close>

lemma sceneVars_restartClicked:
  assumes "built c < length (vars c)"
  shows "sceneVars (restartClicked c) =
           (if built c = length (vars c) - 1 then handleRestart (sceneVars c) else sceneVars c)"
proof -
  from assms have ne: "vars c \<noteq> []" by auto
  let ?v = "(vars c)[length (vars c) - 1 := handleRestart (last (vars c))]"
  have v: "?v ! built c =
      (if built c = length (vars c) - 1 then handleRestart (sceneVars c) else sceneVars c)"
    using assms ne by (simp add: nth_list_update sceneVars_def last_conv_nth)
  have len: "built c < length ?v"
    using assms by simp
  have l: "last (vars c) = vars c ! (length (vars c) - 1)"
    using ne by (rule last_conv_nth)
  show ?thesis
    using v len
    by (simp add: restartClicked_def rerender_def sceneVars_def Let_def nth_append l)
qed

lemma restartClicked_fields:
  "restartQueued (restartClicked c)" "built (restartClicked c) = built c"
  "length (vars c) \<le> length (vars (restartClicked c))"
  "\<not> isPausedState (restartClicked c)"
  by (simp_all add: restartClicked_def rerender_def Let_def)

lemma sceneVars_processRestart:
  assumes "built c < length (vars c)" and "restartQueued c"
  shows "sceneVars (processRestart e c) = restartScene e (sceneVars c)"
    and "\<not> scenePaused (processRestart e c)"
  using assms
  by (simp_all add: processRestart_def sceneCreate_def onScene_def sceneVars_def rerender_def
      restartScene_def Let_def nth_append)

lemma restart_keeps_index:
  assumes "built c < length (vars c)"
    and "currentCheckpoint (sceneVars c) < length (checkpoints (sceneVars c))"
  shows "currentCheckpoint (sceneVars (restartClicked c)) <
           length (checkpoints (sceneVars (restartClicked c)))"
    and "currentCheckpoint (sceneVars (processRestart e (restartClicked c))) <
           length (checkpoints (sceneVars (processRestart e (restartClicked c))))"
proof -
  show a: "currentCheckpoint (sceneVars (restartClicked c)) <
           length (checkpoints (sceneVars (restartClicked c)))"
    using assms(2) by (auto simp: sceneVars_restartClicked [OF assms(1)] handleRestart_def)
  have b: "built (restartClicked c) < length (vars (restartClicked c))"
    using assms(1) restartClicked_fields(2,3) [of c] by simp
  show "currentCheckpoint (sceneVars (processRestart e (restartClicked c))) <
           length (checkpoints (sceneVars (processRestart e (restartClicked c))))"
    using a
    by (simp add: sceneVars_processRestart(1) [OF b restartClicked_fields(1)]
        restartScene_def create_def shutdown_def)
qed

section \<open>The started flag and the overlap callback\<close>

lemma results_of_fresh:
  assumes "currentCheckpoint s = 0" and "lapCount s = 0" and "results s = []"
    and "maxLaps s = int L" and "1 \<le> L" and "checkpoints s \<noteq> []"
  shows "results (inOrderEntries e m s) =
           (if onGameEnd e
            then map (\<lambda>l. \<lparr>res_time = raceTime s / 1000, res_laps = int l, res_position = 1\<rparr>)
                   [L..<Suc (m div length (checkpoints s))]
            else [])"
proof (induction m)
  case 0
  from assms show ?case by (simp add: inOrderEntries_0)
next
  case (Suc m)
  let ?N = "length (checkpoints s)"
  let ?t = "inOrderEntries e m s"
  have start: "currentCheckpoint s < ?N" using assms by simp
  have cc: "currentCheckpoint ?t = m mod ?N"
    using inOrderEntries_index [OF start, of e m] assms by simp
  have lc: "lapCount ?t = int (m div ?N)"
    using inOrderEntries_laps [OF start, of e m] assms by simp
  show ?case
  proof (cases "Suc m mod ?N = 0")
    case True
    then have d: "Suc m div ?N = Suc (m div ?N)" by (simp add: div_Suc)
    from True have w: "Suc (m mod ?N) mod ?N = 0" by (simp add: mod_Suc_eq)
    have le: "(int L \<le> int (m div ?N) + 1) = (L \<le> Suc (m div ?N))" by linarith
    show ?thesis
      using Suc w d le assms(4)
      by (simp add: inOrderEntries_Suc enterExpected_fields inOrderEntries_frame cc lc)
  next
    case False
    then have d: "Suc m div ?N = m div ?N" by (simp add: div_Suc)
    from False have w: "Suc (m mod ?N) mod ?N \<noteq> 0" by (simp add: mod_Suc_eq)
    show ?thesis
      using Suc w d
      by (simp add: inOrderEntries_Suc enterExpected_fields inOrderEntries_frame cc lc)
  qed
qed

text \<open>
  Claim C9. The overlap callback computes everything but the started flag without reading
  the flag: its result on a session with the flag \<open>b\<close> is its result on the session with
  the flag set, with the flag put back to \<open>b\<close> unless the finish cleared it. So an entry of
  the expected checkpoint advances the expected index, and adds a lap at the wrap, also
  before the countdown has run and after the race has finished; and whatever the flag,
  from expected index 0 with no laps and lap target \<open>L\<close> every completed lap from the
  \<open>L\<close>-th on runs the finish again and gives out one more result record.
\<close>

theorem overlap_ignores_started_flag:
  "checkpointOverlap e i (s\<lparr>raceStarted := b\<rparr>) =
     (checkpointOverlap e i (s\<lparr>raceStarted := True\<rparr>))
       \<lparr>raceStarted := b \<and> raceStarted (checkpointOverlap e i (s\<lparr>raceStarted := True\<rparr>))\<rparr>
   \<and> currentCheckpoint (checkpointOverlap e (currentCheckpoint s) (s\<lparr>raceStarted := b\<rparr>)) =
       (currentCheckpoint s + 1) mod length (checkpoints s)
   \<and> lapCount (checkpointOverlap e (currentCheckpoint s) (s\<lparr>raceStarted := b\<rparr>)) =
       lapCount s + (if (currentCheckpoint s + 1) mod length (checkpoints s) = 0 then 1 else 0)
   \<and> (currentCheckpoint s = 0 \<and> lapCount s = 0 \<and> results s = [] \<and> maxLaps s = int L \<and>
        1 \<le> L \<and> checkpoints s \<noteq> [] \<and> onGameEnd e \<longrightarrow>
        results (inOrderEntries e m (s\<lparr>raceStarted := b\<rparr>)) =
          map (\<lambda>l. \<lparr>res_time = raceTime s / 1000, res_laps = int l, res_position = 1\<rparr>)
            [L..<Suc (m div length (checkpoints s))])"
proof -
  have general: "checkpointOverlap e i (s\<lparr>raceStarted := b\<rparr>) =
     (checkpointOverlap e i (s\<lparr>raceStarted := True\<rparr>))
       \<lparr>raceStarted := b \<and> raceStarted (checkpointOverlap e i (s\<lparr>raceStarted := True\<rparr>))\<rparr>"
    by (simp add: checkpointOverlap_def finishRace_def Let_def)
  have fields: "currentCheckpoint (checkpointOverlap e (currentCheckpoint s) (s\<lparr>raceStarted := b\<rparr>)) =
       (currentCheckpoint s + 1) mod length (checkpoints s)"
    "lapCount (checkpointOverlap e (currentCheckpoint s) (s\<lparr>raceStarted := b\<rparr>)) =
       lapCount s + (if (currentCheckpoint s + 1) mod length (checkpoints s) = 0 then 1 else 0)"
    by (simp_all add: checkpointOverlap_fields)
  have laps: "results (inOrderEntries e m (s\<lparr>raceStarted := b\<rparr>)) =
          map (\<lambda>l. \<lparr>res_time = raceTime s / 1000, res_laps = int l, res_position = 1\<rparr>)
            [L..<Suc (m div length (checkpoints s))]"
    if "currentCheckpoint s = 0" "lapCount s = 0" "results s = []" "maxLaps s = int L"
      "1 \<le> L" "checkpoints s \<noteq> []" "onGameEnd e"
    using results_of_fresh [of "s\<lparr>raceStarted := b\<rparr>" L e m] that by simp
  from general fields laps show ?thesis
    by blast
qed

theorem overlap_ignores_started_flag_witness:
  "\<not> raceStarted (create soloEnv initialSession)
   \<and> currentCheckpoint (checkpointOverlap soloEnv 0 (create soloEnv initialSession)) = 1
   \<and> results (inOrderEntries soloEnv 15 (create soloEnv initialSession)) =
       [\<lparr>res_time = 0, res_laps = 3, res_position = 1\<rparr>]
   \<and> results (inOrderEntries soloEnv 20 (create soloEnv initialSession)) =
       [\<lparr>res_time = 0, res_laps = 3, res_position = 1\<rparr>,
        \<lparr>res_time = 0, res_laps = 4, res_position = 1\<rparr>]"
proof -
  let ?c = "create soloEnv initialSession"
  have c: "currentCheckpoint ?c = 0" "lapCount ?c = 0" "results ?c = []"
    "maxLaps ?c = int 3" "1 \<le> (3::nat)" "checkpoints ?c \<noteq> []" "onGameEnd soloEnv"
    "length (checkpoints ?c) = 5" "raceTime ?c = 0" "\<not> raceStarted ?c"
    "?c\<lparr>raceStarted := False\<rparr> = ?c"
    by (simp_all add: create_def initialSession_def checkpointPositions_def soloEnv_def)
  have pre: "currentCheckpoint ?c = 0 \<and> lapCount ?c = 0 \<and> results ?c = [] \<and>
      maxLaps ?c = int 3 \<and> 1 \<le> (3::nat) \<and> checkpoints ?c \<noteq> [] \<and> onGameEnd soloEnv"
    using c by blast
  have u: "[3..<Suc (15 div 5)] = [3::nat]" "[3..<Suc (20 div 5)] = [3::nat, 4]"
    by (simp_all add: upt_rec)
  note w15 = overlap_ignores_started_flag [where e = soloEnv and i = 0 and s = ?c and b = False
      and L = 3 and m = 15]
  note w20 = overlap_ignores_started_flag [where e = soloEnv and i = 0 and s = ?c and b = False
      and L = 3 and m = 20]
  from w15 pre have r15: "results (inOrderEntries soloEnv 15 (?c\<lparr>raceStarted := False\<rparr>)) =
      map (\<lambda>l. \<lparr>res_time = raceTime ?c / 1000, res_laps = int l, res_position = 1\<rparr>)
        [3..<Suc (15 div length (checkpoints ?c))]"
    by blast
  from w20 pre have r20: "results (inOrderEntries soloEnv 20 (?c\<lparr>raceStarted := False\<rparr>)) =
      map (\<lambda>l. \<lparr>res_time = raceTime ?c / 1000, res_laps = int l, res_position = 1\<rparr>)
        [3..<Suc (20 div length (checkpoints ?c))]"
    by blast
  from w15 have idx: "currentCheckpoint (checkpointOverlap soloEnv (currentCheckpoint ?c)
       (?c\<lparr>raceStarted := False\<rparr>)) = (currentCheckpoint ?c + 1) mod length (checkpoints ?c)"
    by blast
  have "results (inOrderEntries soloEnv 15 ?c) = [\<lparr>res_time = 0, res_laps = 3, res_position = 1\<rparr>]"
    using r15 by (simp only: c u) simp
  moreover have "results (inOrderEntries soloEnv 20 ?c) =
       [\<lparr>res_time = 0, res_laps = 3, res_position = 1\<rparr>,
        \<lparr>res_time = 0, res_laps = 4, res_position = 1\<rparr>]"
    using r20 by (simp only: c u) simp
  moreover have "currentCheckpoint (checkpointOverlap soloEnv 0 ?c) = 1"
    using idx by (simp only: c) simp
  ultimately show ?thesis
    using c(10) by blast
qed

section \<open>The win rate never divides by zero\<close>

text \<open>
  Claim C10. For non-negative integers \<open>w\<close> and \<open>t\<close>, \<open>getWinRate\<close> gives \<open>''0%''\<close> when
  the total is 0 and otherwise formats the finite quotient \<open>w / t * 100\<close>; the rate the
  comparator computes for a row is 0 when the row's total is 0 and is a finite number for
  every row, and so is the comparator's result for every two rows. No infinity and no NaN
  arises.
\<close>

theorem win_rate_guards_zero:
  "getWinRate toFixed (real w) 0 = ''0%''
   \<and> (t \<noteq> 0 \<longrightarrow>
        getWinRate toFixed (real w) (real t) = toFixed (Fin (real w / real t * 100)) 1 @ ''%'')
   \<and> (total_races p = 0 \<longrightarrow> winRate p = Fin 0)
   \<and> (\<exists>r. winRate p = Fin r)
   \<and> (\<exists>r. winrateCompare p q = Fin r)
   \<and> (total_races p = 0 \<and> total_races q = 0 \<longrightarrow> winrateCompare p q = Fin 0)"
  by (simp add: getWinRate_def winRate_def winrateCompare_def jsDivide_def)

theorem win_rate_guards_zero_witness:
  "getWinRate (\<lambda>x digits. ''50.0'') 1 0 = ''0%''
   \<and> getWinRate (\<lambda>x digits. ''50.0'') 1 2 = ''50.0%''
   \<and> winRate \<lparr>total_races = 0, wins = 0, best_time = 0\<rparr> = Fin 0
   \<and> winrateCompare \<lparr>total_races = 0, wins = 0, best_time = 0\<rparr>
         \<lparr>total_races = 0, wins = 0, best_time = 0\<rparr> = Fin 0"
  using win_rate_guards_zero [where toFixed = "\<lambda>x digits. ''50.0''" and w = 1 and t = 2
      and p = "\<lparr>total_races = 0, wins = 0, best_time = 0\<rparr>"
      and q = "\<lparr>total_races = 0, wins = 0, best_time = 0\<rparr>"]
  by simp

end
